theory Spec2Isabelle
  imports Main "HOL-Library.Char_ord" "HOL-Library.List_Lexorder"
begin

section \<open>Strings and POSIX path functions used by kconfig-merge.py\<close>

text \<open>
  Python strings are modelled as \<^typ>\<open>string\<close>; a character stands for one code point
  below 256, so the model covers ASCII and Latin-1 text. Lists of strings are compared as
  Python compares them: lexicographically, by code point.
\<close>

abbreviation SEP :: char where "SEP \<equiv> CHR ''/''"
abbreviation DQ :: char where "DQ \<equiv> CHR 0x22"
abbreviation LF :: char where "LF \<equiv> CHR 0x0A"
abbreviation CR :: char where "CR \<equiv> CHR 0x0D"

datatype error =
    FileNotFoundError string
  | IsADirectoryError string
  | NotADirectoryError string
  | FileExistsError string
  | ValueError string
  | Exception string

text \<open>
  \<^verbatim>\<open>str.split('/')\<close>: one piece more than there are separators; \<open>acc\<close> is the
  piece being read.
\<close>

fun split_from :: "string \<Rightarrow> string \<Rightarrow> string list" where
  "split_from acc [] = [acc]"
| "split_from acc (c # cs) =
     (if c = SEP then acc # split_from [] cs else split_from (acc @ [c]) cs)"

definition split_sep :: "string \<Rightarrow> string list" where
  "split_sep p = split_from [] p"

text \<open>\<^verbatim>\<open>'/'.join(comps)\<close>\<close>

fun join_sep :: "string list \<Rightarrow> string" where
  "join_sep [] = []"
| "join_sep [x] = x"
| "join_sep (x # y # ys) = x @ SEP # join_sep (y # ys)"

definition isabs :: "string \<Rightarrow> bool" where
  "isabs p = (take 1 p = [SEP])"

text \<open>\<^verbatim>\<open>posixpath.join(a, b)\<close> with one further component.\<close>

definition join :: "string \<Rightarrow> string \<Rightarrow> string" where
  "join a b =
     (if take 1 b = [SEP] then b
      else if a = [] \<or> last a = SEP then a @ b
      else a @ SEP # b)"

text \<open>
  \<^verbatim>\<open>posixpath.dirname\<close>: everything up to the last separator; trailing separators
  of that head are stripped unless the head consists of separators only.
\<close>

definition dirname :: "string \<Rightarrow> string" where
  "dirname p =
     (let head = rev (dropWhile (\<lambda>c. c \<noteq> SEP) (rev p))
      in if head \<noteq> [] \<and> \<not> list_all (\<lambda>c. c = SEP) head
         then rev (dropWhile (\<lambda>c. c = SEP) (rev head))
         else head)"

text \<open>
  The component loop of \<^verbatim>\<open>posixpath.normpath\<close>; \<open>init\<close> says whether the path
  starts with a separator, \<open>new\<close> is \<^verbatim>\<open>new_comps\<close>.
\<close>

fun norm_comps :: "bool \<Rightarrow> string list \<Rightarrow> string list \<Rightarrow> string list" where
  "norm_comps init new [] = new"
| "norm_comps init new (c # comps) =
     (if c = [] \<or> c = ''.'' then norm_comps init new comps
      else if c \<noteq> ''..'' \<or> (\<not> init \<and> new = []) \<or> (new \<noteq> [] \<and> last new = ''..'')
        then norm_comps init (new @ [c]) comps
      else if new \<noteq> [] then norm_comps init (butlast new) comps
      else norm_comps init new comps)"

definition normpath :: "string \<Rightarrow> string" where
  "normpath p =
     (if p = [] then ''.''
      else
        let initial_slashes =
              (if take 1 p = [SEP] then
                 (if take 2 p = [SEP, SEP] \<and> take 3 p \<noteq> [SEP, SEP, SEP] then 2 else 1)
               else (0::nat));
            comps = norm_comps (initial_slashes \<noteq> 0) [] (split_sep p);
            q = replicate initial_slashes SEP @ join_sep comps
        in if q = [] then ''.'' else q)"

text \<open>\<^verbatim>\<open>posixpath.abspath\<close>; \<open>wd\<close> is the working directory, an absolute path.\<close>

definition abspath :: "string \<Rightarrow> string \<Rightarrow> string" where
  "abspath wd p = normpath (if isabs p then p else join wd p)"

text \<open>
  The longest common prefix of two component lists. Python's loops index the larger
  list (\<^verbatim>\<open>s2[i]\<close>) along the smaller one; since the smaller list is lexicographically
  below the larger one, that index is in range whenever the earlier components agree.
\<close>

fun common_prefix :: "string list \<Rightarrow> string list \<Rightarrow> string list" where
  "common_prefix (c # cs) (d # ds) = (if c \<noteq> d then [] else c # common_prefix cs ds)"
| "common_prefix _ _ = []"

text \<open>\<^verbatim>\<open>posixpath.relpath(path, start)\<close>\<close>

definition relpath :: "string \<Rightarrow> string \<Rightarrow> string \<Rightarrow> error + string" where
  "relpath wd p start =
     (if p = [] then Inl (ValueError ''no path specified'')
      else
        let start_list = filter (\<lambda>x. x \<noteq> []) (split_sep (abspath wd start));
            path_list = filter (\<lambda>x. x \<noteq> []) (split_sep (abspath wd p));
            i = length (common_prefix (min start_list path_list) (max start_list path_list));
            rel_list = replicate (length start_list - i) ''..'' @ drop i path_list
        in if rel_list = [] then Inr ''.''
           else Inr (foldl join (hd rel_list) (tl rel_list)))"

text \<open>\<^verbatim>\<open>posixpath.commonpath(paths)\<close>\<close>

definition commonpath :: "string list \<Rightarrow> error + string" where
  "commonpath paths =
     (if paths = [] then Inl (ValueError ''commonpath() arg is an empty sequence'')
      else if \<exists>p \<in> set paths. \<exists>q \<in> set paths. isabs p \<noteq> isabs q
        then Inl (ValueError ''Can't mix absolute and relative paths'')
      else
        let split_paths =
              map (\<lambda>p. filter (\<lambda>c. c \<noteq> [] \<and> c \<noteq> ''.'') (split_sep p)) paths;
            s1 = fold min (tl split_paths) (hd split_paths);
            s2 = fold max (tl split_paths) (hd split_paths);
            common = common_prefix s1 s2
        in Inr ((if isabs (hd paths) then [SEP] else []) @ join_sep common))"

section \<open>The directive pattern and line-based reading\<close>

text \<open>
  \<^verbatim>\<open>\s\<close> of a Python \<^verbatim>\<open>str\<close> pattern, on code points below 256: the ASCII white space
  (tab, line feed, vertical tab, form feed, carriage return, space), the separators
  0x1C to 0x1F, NEL (0x85) and the no-break space (0xA0).
\<close>

definition is_space :: "char \<Rightarrow> bool" where
  "is_space c =
     (c \<in> set [CHR 0x09, LF, CHR 0x0B, CHR 0x0C, CR, CHR 0x1C, CHR 0x1D, CHR 0x1E,
                CHR 0x1F, CHR '' '', CHR 0x85, CHR 0xA0])"

text \<open>
  \<^verbatim>\<open>re.match(r"^source\s*\"([^\"]*)\"", line)\<close>: \<open>None\<close> when the line does not match,
  otherwise \<open>Some\<close> of group 1. Both starred items are followed by a double quote that
  they cannot consume themselves, so the greedy match is the only one.
\<close>

definition match_source :: "string \<Rightarrow> string option" where
  "match_source l =
     (if take 6 l = ''source'' then
        (case dropWhile is_space (drop 6 l) of
           [] \<Rightarrow> None
         | c # r \<Rightarrow>
             if c = DQ \<and> dropWhile (\<lambda>x. x \<noteq> DQ) r \<noteq> []
             then Some (takeWhile (\<lambda>x. x \<noteq> DQ) r)
             else None)
      else None)"

text \<open>The test of line 64: \<^verbatim>\<open>match and match.group(1)\<close>.\<close>

definition is_directive :: "string \<Rightarrow> bool" where
  "is_directive l = (case match_source l of None \<Rightarrow> False | Some g \<Rightarrow> g \<noteq> [])"

text \<open>
  Iterating over a file opened in text mode with universal newlines: a line ends at
  \<^verbatim>\<open>\n\<close>, \<^verbatim>\<open>\r\n\<close> or \<^verbatim>\<open>\r\<close>, each delivered as \<^verbatim>\<open>\n\<close>; a last
  line without terminator is delivered as it is. \<open>after_cr\<close> says that the
  character before was a carriage return, whose line is already delivered.
\<close>

fun lines_from :: "string \<Rightarrow> bool \<Rightarrow> string \<Rightarrow> string list" where
  "lines_from acc after_cr [] = (if acc = [] then [] else [acc])"
| "lines_from acc after_cr (c # cs) =
     (if c = LF then
        (if after_cr then lines_from [] False cs
         else (acc @ [LF]) # lines_from [] False cs)
      else if c = CR then (acc @ [LF]) # lines_from [] True cs
      else lines_from (acc @ [c]) False cs)"

definition readlines :: "string \<Rightarrow> string list" where
  "readlines content = lines_from [] False content"

section \<open>The filesystem\<close>

text \<open>
  A filesystem maps a normalised absolute path, given as its list of components, to a
  directory or a regular file with its text. Paths are resolved lexically, as
  \<^verbatim>\<open>normpath\<close> does; there are no symbolic links and no permissions. The root
  directory is the empty component list and always exists.
\<close>

datatype node = Dir | File string

type_synonym filesystem = "string list \<Rightarrow> node option"

definition path_key :: "string \<Rightarrow> string \<Rightarrow> string list" where
  "path_key wd p = filter (\<lambda>x. x \<noteq> []) (split_sep (abspath wd p))"

definition is_file_node :: "node option \<Rightarrow> bool" where
  "is_file_node x = (case x of Some (File c) \<Rightarrow> True | _ \<Rightarrow> False)"

definition is_dir_key :: "filesystem \<Rightarrow> string list \<Rightarrow> bool" where
  "is_dir_key f k = (k = [] \<or> f k = Some Dir)"

text \<open>\<^verbatim>\<open>os.path.exists\<close> and \<^verbatim>\<open>os.path.isfile\<close>\<close>

definition exists_path :: "filesystem \<Rightarrow> string \<Rightarrow> string \<Rightarrow> bool" where
  "exists_path f wd p = (p \<noteq> [] \<and> (path_key wd p = [] \<or> f (path_key wd p) \<noteq> None))"

definition isfile :: "filesystem \<Rightarrow> string \<Rightarrow> string \<Rightarrow> bool" where
  "isfile f wd p =
     (p \<noteq> [] \<and> path_key wd p \<noteq> [] \<and> is_file_node (f (path_key wd p)))"

text \<open>All non-empty prefixes of a component list, shortest first.\<close>

definition dir_chain :: "string list \<Rightarrow> string list list" where
  "dir_chain k = map (\<lambda>i. take i k) [1 ..< Suc (length k)]"

text \<open>
  \<^verbatim>\<open>os.makedirs(name, exist_ok=True)\<close>: every missing directory on the way is created;
  a regular file on the way is an error, and so is the empty name.
\<close>

definition makedirs :: "filesystem \<Rightarrow> string \<Rightarrow> string \<Rightarrow> error + filesystem" where
  "makedirs f wd name =
     (if name = [] then Inl (FileNotFoundError name)
      else
        let k = path_key wd name in
        if \<exists>a \<in> set (dir_chain (butlast k)). is_file_node (f a)
          then Inl (NotADirectoryError name)
        else if k \<noteq> [] \<and> is_file_node (f k) then Inl (FileExistsError name)
        else Inr (\<lambda>a. if a \<in> set (dir_chain k) then Some Dir else f a))"

text \<open>
  \<^verbatim>\<open>open(p, 'r')\<close>: succeeds on a regular file. The text is read when the loop over
  the lines starts, see \<open>read_text\<close>.
\<close>

definition open_r :: "filesystem \<Rightarrow> string \<Rightarrow> string \<Rightarrow> error + unit" where
  "open_r f wd p =
     (if p = [] then Inl (FileNotFoundError p)
      else if path_key wd p = [] then Inl (IsADirectoryError p)
      else case f (path_key wd p) of
             None \<Rightarrow> Inl (FileNotFoundError p)
           | Some Dir \<Rightarrow> Inl (IsADirectoryError p)
           | Some (File c) \<Rightarrow> Inr ())"

definition read_text :: "filesystem \<Rightarrow> string \<Rightarrow> string \<Rightarrow> string" where
  "read_text f wd p = (case f (path_key wd p) of Some (File c) \<Rightarrow> c | _ \<Rightarrow> [])"

text \<open>
  \<^verbatim>\<open>open(p, 'w')\<close>: the file is created or truncated at once; the directory that is
  to hold it must exist.
\<close>

definition open_w :: "filesystem \<Rightarrow> string \<Rightarrow> string \<Rightarrow> error + filesystem" where
  "open_w f wd p =
     (if p = [] then Inl (FileNotFoundError p)
      else
        let k = path_key wd p in
        if is_dir_key f k then Inl (IsADirectoryError p)
        else if \<not> is_dir_key f (butlast k) then
          (case f (butlast k) of
             Some (File c) \<Rightarrow> Inl (NotADirectoryError p)
           | _ \<Rightarrow> Inl (FileNotFoundError p))
        else Inr (f(k \<mapsto> File [])))"

text \<open>
  Closing a handle opened for writing. What was written is held by the stream's
  buffer and reaches the file when the handle is closed, at the handle's offset, which
  is 0: the text replaces the beginning of whatever the file holds by then. (The model
  takes the buffer to hold the whole text, and a reader's buffer the whole file.)
\<close>

definition close_w :: "filesystem \<Rightarrow> string \<Rightarrow> string \<Rightarrow> string \<Rightarrow> filesystem" where
  "close_w f wd p buf =
     (let k = path_key wd p
      in f(k \<mapsto> File (buf @ drop (length buf) (read_text f wd p))))"

section \<open>The class KconfigMerge\<close>

text \<open>
  The fields of the object, followed by the environment it works in: the filesystem
  \<open>fs\<close> and the working directory \<open>cwd\<close>. A record of the list
  \<^verbatim>\<open>kconfig_sources\<close> is the Python set \<^verbatim>\<open>{kconfig_source, kconfig_parent_relpath}\<close>.
  \<open>invocations\<close> is not a field of the class: it counts the entries into
  \<^verbatim>\<open>_parse_kconfig\<close>, so that properties of the number of calls can be stated.
\<close>

record state =
  title :: string
  kconfig_root :: string
  sources :: "string list"
  parent_dir :: string
  common_dir :: string
  overwrite :: string
  kconfig_sources :: "string set list"
  headers :: "string list"
  fs :: filesystem
  cwd :: string
  invocations :: nat

text \<open>\<^verbatim>\<open>KconfigMerge.__init__\<close>, lines 22 to 35.\<close>

definition init :: "string \<Rightarrow> string \<Rightarrow> string \<Rightarrow> filesystem \<Rightarrow> string \<Rightarrow> error + state" where
  "init ttl root ovw f wd =
     (case makedirs f wd (dirname root) of
        Inl e \<Rightarrow> Inl e
      | Inr f' \<Rightarrow>
          Inr \<lparr>title = ttl, kconfig_root = root, sources = [], parent_dir = dirname root,
               common_dir = [], overwrite = ovw, kconfig_sources = [],
               headers = [''# AUTOGENERATED FILE. DO NOT MODIFY''],
               fs = f', cwd = wd, invocations = 0\<rparr>)"

text \<open>\<^verbatim>\<open>_get_source_relpath\<close>, line 41.\<close>

definition get_source_relpath :: "state \<Rightarrow> string \<Rightarrow> error + string" where
  "get_source_relpath st source_path = relpath (cwd st) source_path (common_dir st)"

text \<open>\<^verbatim>\<open>_get_parent_relpath\<close>, lines 48 to 50.\<close>

definition get_parent_relpath :: "state \<Rightarrow> string \<Rightarrow> (error + string) \<times> state" where
  "get_parent_relpath st source_path =
     (case get_source_relpath st source_path of
        Inl e \<Rightarrow> (Inl e, st)
      | Inr rel \<Rightarrow>
          let parent_relpath = join (parent_dir st) rel in
          (case makedirs (fs st) (cwd st) (dirname parent_relpath) of
             Inl e \<Rightarrow> (Inl e, st)
           | Inr f' \<Rightarrow> (Inr parent_relpath, st\<lparr>fs := f'\<rparr>)))"

text \<open>The line written for a directive, lines 68 and 92.\<close>

definition source_line :: "string \<Rightarrow> string" where
  "source_line rel = ''source '' @ [DQ] @ rel @ [DQ, LF]"

text \<open>
  \<^verbatim>\<open>_parse_kconfig\<close>, lines 52 to 73, and its loop over the lines, lines 62 to 71.
  The first argument bounds the depth of the recursion: \<open>None\<close> means that the bound
  was reached. \<open>parse_lines\<close> carries the text written to \<^verbatim>\<open>f_source_out\<close> so far.
  Both files are closed when the \<^verbatim>\<open>with\<close> block is left, also by an exception.
\<close>

fun parse_kconfig :: "nat \<Rightarrow> state \<Rightarrow> string \<Rightarrow> ((error + string) \<times> state) option"
  and parse_lines ::
    "nat \<Rightarrow> state \<Rightarrow> string \<Rightarrow> string list \<Rightarrow> string \<Rightarrow> ((error + unit) \<times> string \<times> state) option"
where
  "parse_kconfig 0 st kconfig_source = None"
| "parse_kconfig (Suc n) st kconfig_source =
     (let st0 = st\<lparr>invocations := Suc (invocations st)\<rparr> in
      case get_source_relpath st0 kconfig_source of
        Inl e \<Rightarrow> Some (Inl e, st0)
      | Inr rel \<Rightarrow>
      (case get_parent_relpath st0 kconfig_source of
        (Inl e, st1) \<Rightarrow> Some (Inl e, st1)
      | (Inr dest, st1) \<Rightarrow>
          let dir = dirname kconfig_source;
              st2 = st1\<lparr>kconfig_sources := kconfig_sources st1 @ [{kconfig_source, dest}]\<rparr>
          in
          (case open_r (fs st2) (cwd st2) kconfig_source of
             Inl e \<Rightarrow> Some (Inl e, st2)
           | Inr _ \<Rightarrow>
          (case open_w (fs st2) (cwd st2) dest of
             Inl e \<Rightarrow> Some (Inl e, st2)
           | Inr f3 \<Rightarrow>
               (case parse_lines n (st2\<lparr>fs := f3\<rparr>) dir
                       (readlines (read_text f3 (cwd st2) kconfig_source)) [] of
                  None \<Rightarrow> None
                | Some (r, out, st4) \<Rightarrow>
                    Some (map_sum id (\<lambda>_. rel) r,
                          st4\<lparr>fs := close_w (fs st4) (cwd st4) dest out\<rparr>))))))"
| "parse_lines n st dir [] out = Some (Inr (), out, st)"
| "parse_lines n st dir (l # ls) out =
     (case match_source l of
        None \<Rightarrow> parse_lines n st dir ls (out @ l)
      | Some g \<Rightarrow>
          if g \<noteq> [] then
            (case parse_kconfig n st (join dir g) of
               None \<Rightarrow> None
             | Some (Inl e, st') \<Rightarrow> Some (Inl e, out, st')
             | Some (Inr source_relpath, st') \<Rightarrow>
                 parse_lines n st' dir ls (out @ source_line source_relpath))
          else parse_lines n st dir ls (out @ l))"

text \<open>The loop of \<^verbatim>\<open>import_sources\<close>, lines 88 to 93; \<open>out\<close> is the text written to the root file.\<close>

fun import_loop ::
  "nat \<Rightarrow> state \<Rightarrow> string list \<Rightarrow> string \<Rightarrow> ((error + unit) \<times> string \<times> state) option" where
  "import_loop n st [] out = Some (Inr (), out, st)"
| "import_loop n st (source # rest) out =
     (case parse_kconfig n st source of
        None \<Rightarrow> None
      | Some (Inl e, st') \<Rightarrow> Some (Inl e, out, st')
      | Some (Inr rel, st') \<Rightarrow> import_loop n st' rest (out @ source_line rel))"

text \<open>The text written before the loop, lines 83 to 86.\<close>

definition root_header :: "state \<Rightarrow> string" where
  "root_header st =
     concat (map (\<lambda>h. h @ [LF]) (headers st))
     @ ''mainmenu '' @ [DQ] @ title st @ '' Configuration'' @ [DQ, LF]"

text \<open>\<^verbatim>\<open>import_sources\<close>, lines 75 to 94.\<close>

definition import_sources :: "nat \<Rightarrow> state \<Rightarrow> string list \<Rightarrow> ((error + unit) \<times> state) option" where
  "import_sources n st srcs =
     (case commonpath srcs of
        Inl e \<Rightarrow> Some (Inl e, st)
      | Inr cd \<Rightarrow>
          let st1 = st\<lparr>common_dir := cd\<rparr> in
          (case open_w (fs st1) (cwd st1) (kconfig_root st1) of
             Inl e \<Rightarrow> Some (Inl e, st1)
           | Inr f2 \<Rightarrow>
               (case import_loop n (st1\<lparr>fs := f2\<rparr>) srcs (root_header st1) of
                  None \<Rightarrow> None
                | Some (r, out, st3) \<Rightarrow>
                    Some (r, st3\<lparr>fs := close_w (fs st3) (cwd st3) (kconfig_root st3) out\<rparr>))))"

text \<open>\<^verbatim>\<open>'%d' % n\<close>\<close>

fun show_nat :: "nat \<Rightarrow> string" where
  "show_nat n =
     (if n < 10 then [char_of (n + 48)]
      else show_nat (n div 10) @ [char_of (n mod 10 + 48)])"

text \<open>\<^verbatim>\<open>summary\<close>, lines 96 to 98: the two messages handed to the logger.\<close>

definition summary :: "state \<Rightarrow> string list" where
  "summary st =
     [''Imported '' @ show_nat (length (kconfig_sources st)) @ '' kconfig sources'',
      ''Generator Kconfig at '' @ kconfig_root st]"

text \<open>Lines 116 and 117: a relative source is resolved against the working directory.\<close>

definition make_absolute :: "string \<Rightarrow> string \<Rightarrow> string" where
  "make_absolute wd source = (if \<not> isabs source then abspath wd source else source)"

text \<open>
  The validation loop of \<^verbatim>\<open>main\<close>, lines 114 to 123: the sources made absolute,
  or the exception raised for the first one that is missing or not a regular file.
\<close>

fun check_sources :: "filesystem \<Rightarrow> string \<Rightarrow> string list \<Rightarrow> error + string list" where
  "check_sources f wd [] = Inr []"
| "check_sources f wd (source # rest) =
     (let s = make_absolute wd source in
      if \<not> exists_path f wd s then Inl (Exception (''Could not find file: '' @ s))
      else if \<not> isfile f wd s then Inl (Exception (''Not a file: '' @ s))
      else (case check_sources f wd rest of
              Inl e \<Rightarrow> Inl e
            | Inr ss \<Rightarrow> Inr (s # ss)))"

text \<open>
  \<^verbatim>\<open>main\<close>, lines 100 to 127, after the arguments are parsed: the result is the
  exception that ends the run or the messages of \<^verbatim>\<open>summary\<close>, with the filesystem
  the run leaves behind.
\<close>

definition main ::
  "nat \<Rightarrow> filesystem \<Rightarrow> string \<Rightarrow> string \<Rightarrow> string \<Rightarrow> string list
     \<Rightarrow> ((error + string list) \<times> filesystem) option" where
  "main n f wd ttl kconfig srcs =
     (case check_sources f wd srcs of
        Inl e \<Rightarrow> Some (Inl e, f)
      | Inr kconfig_sources' \<Rightarrow>
          (case init ttl kconfig ''always'' f wd of
             Inl e \<Rightarrow> Some (Inl e, f)
           | Inr st \<Rightarrow>
               (case import_sources n st kconfig_sources' of
                  None \<Rightarrow> None
                | Some (Inl e, st') \<Rightarrow> Some (Inl e, fs st')
                | Some (Inr _, st') \<Rightarrow> Some (Inr (summary st'), fs st'))))"

section \<open>Notions used to state the properties\<close>

text \<open>The fields of the object that a run sets once and leaves alone afterwards.\<close>

definition same_object :: "state \<Rightarrow> state \<Rightarrow> bool" where
  "same_object st st' =
     (title st' = title st \<and> kconfig_root st' = kconfig_root st \<and> sources st' = sources st
      \<and> parent_dir st' = parent_dir st \<and> common_dir st' = common_dir st
      \<and> overwrite st' = overwrite st \<and> headers st' = headers st \<and> cwd st' = cwd st)"

text \<open>The places in the filesystem named by a list of source records.\<close>

definition record_keys :: "string \<Rightarrow> string set list \<Rightarrow> string list set" where
  "record_keys wd recs = (\<Union>r \<in> set recs. path_key wd ` r)"

text \<open>
  What the specification asks for one line of a source file that lies in directory
  \<open>dir\<close>: a directive becomes \<^verbatim>\<open>source "relPath"\<close> and a line feed, where \<open>relPath\<close>
  is the referenced path relative to the common directory \<open>cd\<close>; any other line stays.
\<close>

definition spec_output_line :: "string \<Rightarrow> string \<Rightarrow> string \<Rightarrow> string \<Rightarrow> error + string" where
  "spec_output_line wd cd dir l =
     (case match_source l of
        None \<Rightarrow> Inr l
      | Some g \<Rightarrow>
          if g = [] then Inr l
          else (case relpath wd (join dir g) cd of
                  Inl e \<Rightarrow> Inl e
                | Inr rel \<Rightarrow> Inr (''source '' @ [DQ] @ rel @ [DQ, LF])))"

text \<open>
  The paths that the directives of file \<open>p\<close> refer to, as line 65 computes them, in
  filesystem \<open>f\<close>; the reference graph on a set \<open>R\<close> of paths, with an edge from the
  referenced path to the referring one; and a filesystem \<open>f\<close> that has regular files at the
  places named by \<open>R\<close> exactly where \<open>f0\<close> has them, with the same text.
\<close>

definition references :: "string \<Rightarrow> filesystem \<Rightarrow> string \<Rightarrow> string list" where
  "references wd f p =
     concat (map (\<lambda>l. case match_source l of
                          None \<Rightarrow> []
                        | Some g \<Rightarrow> if g \<noteq> [] then [join (dirname p) g] else [])
                 (readlines (read_text f wd p)))"

definition reference_graph :: "string \<Rightarrow> filesystem \<Rightarrow> string set \<Rightarrow> (string \<times> string) set" where
  "reference_graph wd f R = {(q, p). p \<in> R \<and> q \<in> set (references wd f p)}"

definition sources_intact :: "string \<Rightarrow> filesystem \<Rightarrow> string set \<Rightarrow> filesystem \<Rightarrow> bool" where
  "sources_intact wd f0 R f =
     (\<forall>p \<in> R. \<forall>c. (f (path_key wd p) = Some (File c)) = (f0 (path_key wd p) = Some (File c)))"

text \<open>A result that is not an exception.\<close>

definition returned :: "error + 'a \<Rightarrow> bool" where
  "returned r = (case r of Inl e \<Rightarrow> False | Inr x \<Rightarrow> True)"

section \<open>An example tree\<close>

text \<open>
  A small source tree used to run the functions: \<^verbatim>\<open>/a/x\<close> refers to \<^verbatim>\<open>/a/b/y\<close> in a
  directive that is followed by a comment, \<^verbatim>\<open>/a/Kconfig\<close> is a longer file without
  directives.
\<close>

definition ex_fs :: filesystem where
  "ex_fs =
     [[''a''] \<mapsto> Dir,
      [''a'', ''b''] \<mapsto> Dir,
      [''w''] \<mapsto> Dir,
      [''a'', ''x''] \<mapsto>
        File (''config A'' @ [LF] @ ''source '' @ [DQ] @ ''b/y'' @ [DQ] @ '' # nested'' @ [LF]),
      [''a'', ''b'', ''y''] \<mapsto> File (''config Y'' @ [LF]),
      [''a'', ''b'', ''z''] \<mapsto> File (''config Z'' @ [LF]),
      [''a'', ''Kconfig''] \<mapsto>
        File (''config FIRST_OPTION_OF_THE_PROJECT'' @ [LF] @ ''    bool'' @ [LF]
              @ ''config SECOND_OPTION_OF_THE_PROJECT'' @ [LF] @ ''    bool'' @ [LF]
              @ ''config THIRD_OPTION_OF_THE_PROJECT'' @ [LF] @ ''    bool'' @ [LF])]"

text \<open>The object that \<open>init\<close> builds for the root file \<^verbatim>\<open>/out/Kconfig\<close>, with \<^verbatim>\<open>/a\<close> as common directory.\<close>

definition ex_state :: state where
  "ex_state =
     \<lparr>title = ''Demo'', kconfig_root = ''/out/Kconfig'', sources = [], parent_dir = ''/out'',
      common_dir = ''/a'', overwrite = ''always'', kconfig_sources = [],
      headers = [''# AUTOGENERATED FILE. DO NOT MODIFY''],
      fs = ex_fs([''out''] \<mapsto> Dir), cwd = ''/w'', invocations = 0\<rparr>"

text \<open>The line of \<^verbatim>\<open>/a/x\<close> that refers to \<^verbatim>\<open>b/y\<close>.\<close>

definition ex_line :: string where
  "ex_line = ''source '' @ [DQ] @ ''b/y'' @ [DQ] @ '' # nested'' @ [LF]"

text \<open>The same object when a regular file lies at \<^verbatim>\<open>/out/b\<close>, where a directory is needed.\<close>

definition ex_blocked :: state where
  "ex_blocked = ex_state\<lparr>fs := (fs ex_state)([''out'', ''b''] \<mapsto> File [])\<rparr>"

section \<open>A tree whose output directory lies among the sources\<close>

text \<open>
  \<^verbatim>\<open>/a/b/x\<close> refers to \<^verbatim>\<open>../x\<close> and \<^verbatim>\<open>/a/z\<close> to \<^verbatim>\<open>o/b/x\<close>; all four files exist.
  \<open>cyc_state\<close> is the object that \<open>init\<close> builds for the root file \<^verbatim>\<open>/a/o/Kconfig\<close>,
  \<open>cyc_start\<close> the state in which the loop of \<open>import_sources\<close> starts, and \<open>cyc_inv\<close>
  describes the states in which \<^verbatim>\<open>/a/o/b/x\<close> holds the line \<^verbatim>\<open>source "x"\<close> and the
  directories and files that the calls for \<^verbatim>\<open>/a/z\<close> and \<^verbatim>\<open>/a/o/b/x\<close> need can be made.
\<close>

definition cyc_fs :: filesystem where
  "cyc_fs =
     [[''a''] \<mapsto> Dir,
      [''a'', ''b''] \<mapsto> Dir,
      [''a'', ''o''] \<mapsto> Dir,
      [''a'', ''o'', ''b''] \<mapsto> Dir,
      [''w''] \<mapsto> Dir,
      [''a'', ''b'', ''x''] \<mapsto> File (''source '' @ [DQ] @ ''../x'' @ [DQ, LF]),
      [''a'', ''x''] \<mapsto> File (''config X'' @ [LF]),
      [''a'', ''z''] \<mapsto> File (''source '' @ [DQ] @ ''o/b/x'' @ [DQ, LF]),
      [''a'', ''o'', ''b'', ''x''] \<mapsto> File (''config OLD'' @ [LF])]"

definition cyc_state :: state where
  "cyc_state =
     \<lparr>title = ''Demo'', kconfig_root = ''/a/o/Kconfig'', sources = [], parent_dir = ''/a/o'',
      common_dir = [], overwrite = ''always'', kconfig_sources = [],
      headers = [''# AUTOGENERATED FILE. DO NOT MODIFY''],
      fs = cyc_fs, cwd = ''/w'', invocations = 0\<rparr>"

definition cyc_inv :: "state \<Rightarrow> bool" where
  "cyc_inv st =
     (cwd st = ''/w'' \<and> common_dir st = ''/a'' \<and> parent_dir st = ''/a/o''
      \<and> fs st [''a'', ''o'', ''b'', ''x''] = Some (File (''source '' @ [DQ] @ ''x'' @ [DQ, LF]))
      \<and> fs st [''a'', ''z''] = Some (File (''source '' @ [DQ] @ ''o/b/x'' @ [DQ, LF]))
      \<and> \<not> is_file_node (fs st [''a''])
      \<and> \<not> is_file_node (fs st [''a'', ''o''])
      \<and> \<not> is_file_node (fs st [''a'', ''o'', ''o''])
      \<and> \<not> is_file_node (fs st [''a'', ''o'', ''o'', ''b''])
      \<and> fs st [''a'', ''o'', ''o'', ''b'', ''x''] \<noteq> Some Dir
      \<and> fs st [''a'', ''o'', ''z''] \<noteq> Some Dir)"

definition cyc_start :: state where
  "cyc_start = cyc_state\<lparr>common_dir := ''/a'', fs := cyc_fs([''a'', ''o'', ''Kconfig''] \<mapsto> File [])\<rparr>"

section \<open>Properties\<close>

subsection \<open>The directive pattern\<close>

lemma match_source_app:
  assumes "\<forall>c \<in> set ws. is_space c" "DQ \<notin> set p"
  shows "match_source (''source'' @ ws @ DQ # p @ DQ # rest) = Some p"
proof -
  have sp: "\<not> is_space DQ" by (simp add: is_space_def)
  have 1: "dropWhile is_space (ws @ DQ # p @ DQ # rest) = DQ # p @ DQ # rest"
    using assms(1) sp by (simp add: dropWhile_append3)
  have 2: "dropWhile (\<lambda>x. x \<noteq> DQ) (p @ DQ # rest) = DQ # rest"
    using assms(2) by (auto simp: dropWhile_append3)
  have 3: "takeWhile (\<lambda>x. x \<noteq> DQ) (p @ DQ # rest) = p"
    using assms(2) by (auto simp: takeWhile_tail)
  show ?thesis
    unfolding match_source_def using 1 2 3 by simp
qed



lemma parse_lines_plain:
  "\<not> is_directive l \<Longrightarrow> parse_lines n st dir (l # ls) out = parse_lines n st dir ls (out @ l)"
  by (auto simp: is_directive_def split: option.splits)




subsection \<open>Case analysis and induction for the recursive walk\<close>

text \<open>
  The ways in which one call of \<open>parse_kconfig\<close> can end, and what one step of the
  loop over the lines does.
\<close>

lemma parse_kconfig_Suc_cases:
  assumes "parse_kconfig (Suc n) st src = Some (r, st')"
  obtains
    (relpath_error) e where
      "get_source_relpath st src = Inl e" "r = Inl e"
      "st' = st\<lparr>invocations := Suc (invocations st)\<rparr>"
  | (makedirs_error) rel e where
      "get_source_relpath st src = Inr rel"
      "makedirs (fs st) (cwd st) (dirname (join (parent_dir st) rel)) = Inl e" "r = Inl e"
      "st' = st\<lparr>invocations := Suc (invocations st)\<rparr>"
  | (open_error) rel f1 e where
      "get_source_relpath st src = Inr rel"
      "makedirs (fs st) (cwd st) (dirname (join (parent_dir st) rel)) = Inr f1"
      "open_r f1 (cwd st) src = Inl e \<or>
         open_r f1 (cwd st) src = Inr () \<and> open_w f1 (cwd st) (join (parent_dir st) rel) = Inl e"
      "r = Inl e"
      "st' = st\<lparr>kconfig_sources := kconfig_sources st @ [{src, join (parent_dir st) rel}],
                 fs := f1, invocations := Suc (invocations st)\<rparr>"
  | (run) rel f1 f3 r' out st4 where
      "get_source_relpath st src = Inr rel"
      "makedirs (fs st) (cwd st) (dirname (join (parent_dir st) rel)) = Inr f1"
      "open_r f1 (cwd st) src = Inr ()"
      "open_w f1 (cwd st) (join (parent_dir st) rel) = Inr f3"
      "parse_lines n
         (st\<lparr>invocations := Suc (invocations st),
               kconfig_sources := kconfig_sources st @ [{src, join (parent_dir st) rel}],
               fs := f3\<rparr>)
         (dirname src) (readlines (read_text f3 (cwd st) src)) [] = Some (r', out, st4)"
      "r = map_sum id (\<lambda>_. rel) r'"
      "st' = st4\<lparr>fs := close_w (fs st4) (cwd st4) (join (parent_dir st) rel) out\<rparr>"
  using assms
  apply (simp only: parse_kconfig.simps Let_def)
  apply (auto simp: get_parent_relpath_def get_source_relpath_def Let_def
      split: sum.splits prod.splits option.splits)
  done

lemma parse_lines_Cons_cases:
  assumes "parse_lines n st dir (l # ls) out = Some (r, out', st')"
  obtains
    (plain) "\<not> is_directive l" "parse_lines n st dir ls (out @ l) = Some (r, out', st')"
  | (nested_error) g e where
      "match_source l = Some g" "g \<noteq> []"
      "parse_kconfig n st (join dir g) = Some (Inl e, st')" "r = Inl e" "out' = out"
  | (nested) g rel st1 where
      "match_source l = Some g" "g \<noteq> []"
      "parse_kconfig n st (join dir g) = Some (Inr rel, st1)"
      "parse_lines n st1 dir ls (out @ source_line rel) = Some (r, out', st')"
  using assms
  by (auto simp: is_directive_def split: option.splits sum.splits prod.splits if_splits)

lemma parse_induct [consumes 0, case_names kconfig lines_Nil lines_Cons]:
  assumes K: "\<And>n st src r st'.
      \<lbrakk>parse_kconfig (Suc n) st src = Some (r, st');
       \<And>st dir ls out r out' st'.
          parse_lines n st dir ls out = Some (r, out', st') \<Longrightarrow> Q st dir ls out r out' st'\<rbrakk>
      \<Longrightarrow> P st src r st'"
    and L0: "\<And>st dir out. Q st dir [] out (Inr ()) out st"
    and L1: "\<And>n st dir l ls out r out' st'.
      \<lbrakk>parse_lines n st dir (l # ls) out = Some (r, out', st');
       \<And>st src r st'. parse_kconfig n st src = Some (r, st') \<Longrightarrow> P st src r st';
       \<And>st out r out' st'.
          parse_lines n st dir ls out = Some (r, out', st') \<Longrightarrow> Q st dir ls out r out' st'\<rbrakk>
      \<Longrightarrow> Q st dir (l # ls) out r out' st'"
  shows "(\<forall>st src r st'. parse_kconfig n st src = Some (r, st') \<longrightarrow> P st src r st') \<and>
         (\<forall>st dir ls out r out' st'.
            parse_lines n st dir ls out = Some (r, out', st') \<longrightarrow> Q st dir ls out r out' st')"
proof (induction n)
  case 0
  have k: "\<forall>st src r st'. parse_kconfig 0 st src = Some (r, st') \<longrightarrow> P st src r st'"
    by simp
  have "parse_lines 0 st dir ls out = Some (r, out', st') \<Longrightarrow> Q st dir ls out r out' st'"
    for st dir ls out r out' st'
  proof (induction ls arbitrary: st out r out' st')
    case Nil
    then show ?case using L0 by simp
  next
    case (Cons l ls)
    show ?case
      apply (rule L1 [OF Cons.prems])
       apply (use k in blast)
      apply (erule Cons.IH)
      done
  qed
  with k show ?case by blast
next
  case (Suc n)
  have k: "parse_kconfig (Suc n) st src = Some (r, st') \<Longrightarrow> P st src r st'" for st src r st'
    apply (erule K)
    apply (use Suc in blast)
    done
  have "parse_lines (Suc n) st dir ls out = Some (r, out', st') \<Longrightarrow> Q st dir ls out r out' st'"
    for st dir ls out r out' st'
  proof (induction ls arbitrary: st out r out' st')
    case Nil
    then show ?case using L0 by simp
  next
    case (Cons l ls)
    show ?case
      apply (rule L1 [OF Cons.prems])
       apply (use k in blast)
      apply (erule Cons.IH)
      done
  qed
  with k show ?case by blast
qed

subsection \<open>The overwrite parameter\<close>

lemma get_source_relpath_overwrite [simp]:
  "get_source_relpath (st\<lparr>overwrite := v\<rparr>) p = get_source_relpath st p"
  by (simp add: get_source_relpath_def)

lemma get_parent_relpath_overwrite:
  "get_parent_relpath (st\<lparr>overwrite := v\<rparr>) p =
     map_prod id (overwrite_update (\<lambda>_. v)) (get_parent_relpath st p)"
  by (simp add: get_parent_relpath_def Let_def split: sum.splits)

lemma parse_lines_overwrite_step:
  assumes "\<And>st src. parse_kconfig n (st\<lparr>overwrite := v\<rparr>) src =
     map_option (map_prod id (overwrite_update (\<lambda>_. v))) (parse_kconfig n st src)"
  shows "parse_lines n (st\<lparr>overwrite := v\<rparr>) dir ls out =
     map_option (map_prod id (map_prod id (overwrite_update (\<lambda>_. v)))) (parse_lines n st dir ls out)"
proof (induction ls arbitrary: st out)
  case Nil
  show ?case by simp
next
  case (Cons l ls)
  show ?case
    by (simp add: assms Cons.IH split: option.splits sum.splits prod.splits)
qed

lemma parse_kconfig_overwrite:
  "parse_kconfig n (st\<lparr>overwrite := v\<rparr>) src =
     map_option (map_prod id (overwrite_update (\<lambda>_. v))) (parse_kconfig n st src)"
proof (induction n arbitrary: st src)
  case 0
  show ?case by simp
next
  case (Suc n)
  note L = parse_lines_overwrite_step [of n v, OF Suc.IH]
  have c: "st\<lparr>overwrite := v, invocations := k\<rparr> = st\<lparr>invocations := k, overwrite := v\<rparr>" for k
    by simp
  show ?case
    apply (simp only: parse_kconfig.simps Let_def c get_source_relpath_overwrite get_parent_relpath_overwrite)
    apply (cases "get_source_relpath (st\<lparr>invocations := Suc (invocations st)\<rparr>) src")
     apply simp
    apply (cases "get_parent_relpath (st\<lparr>invocations := Suc (invocations st)\<rparr>) src")
    subgoal for rel r st1
      apply (cases r)
       apply simp
      subgoal for dest
        apply (simp split: sum.splits)
        apply (intro allI impI conjI)
        subgoal for f3
        proof -
          have e: "st1\<lparr>overwrite := v, kconfig_sources := kconfig_sources st1 @ [{src, dest}], fs := f3\<rparr>
              = (st1\<lparr>kconfig_sources := kconfig_sources st1 @ [{src, dest}], fs := f3\<rparr>)\<lparr>overwrite := v\<rparr>"
            by simp
          show ?thesis
            unfolding e L by (auto split: option.splits prod.splits)
        qed
        done
      done
    done
qed

lemma import_loop_overwrite:
  "import_loop n (st\<lparr>overwrite := v\<rparr>) srcs out =
     map_option (map_prod id (map_prod id (overwrite_update (\<lambda>_. v)))) (import_loop n st srcs out)"
proof (induction srcs arbitrary: st out)
  case Nil
  show ?case by simp
next
  case (Cons s srcs)
  show ?case
    by (simp add: parse_kconfig_overwrite Cons.IH split: option.splits sum.splits prod.splits)
qed

lemma import_sources_overwrite:
  "import_sources n (st\<lparr>overwrite := v\<rparr>) srcs =
     map_option (map_prod id (overwrite_update (\<lambda>_. v))) (import_sources n st srcs)"
proof -
  have e: "st\<lparr>overwrite := v, common_dir := cd, fs := f\<rparr>
             = (st\<lparr>common_dir := cd, fs := f\<rparr>)\<lparr>overwrite := v\<rparr>" for cd f
    by simp
  have h: "root_header (st\<lparr>overwrite := v, common_dir := cd\<rparr>) = root_header (st\<lparr>common_dir := cd\<rparr>)" for cd
    by (simp add: root_header_def)
  show ?thesis
    unfolding import_sources_def Let_def
    by (auto simp: e h import_loop_overwrite split: sum.splits option.splits prod.splits)
qed

lemma init_overwrite:
  "init ttl root v f wd = map_sum id (overwrite_update (\<lambda>_. v)) (init ttl root w f wd)"
  by (simp add: init_def split: sum.splits)

text \<open>
  C8. The value of \<^verbatim>\<open>overwrite\<close> is stored by the constructor and read nowhere: a
  run with another value returns the same result and leaves the same state, filesystem
  and source records included, except for the stored value itself.
\<close>

theorem overwrite_never_consulted:
  "import_sources n (st\<lparr>overwrite := v\<rparr>) srcs
     = map_option (map_prod id (overwrite_update (\<lambda>_. v))) (import_sources n st srcs)
   \<and> init ttl root v f wd = map_sum id (overwrite_update (\<lambda>_. v)) (init ttl root w f wd)"
  using import_sources_overwrite init_overwrite by blast

theorem overwrite_never_consulted_witness:
  "import_sources 2 (ex_state\<lparr>overwrite := ''never''\<rparr>) [''/a/x'', ''/a/b/z'']
     = map_option (map_prod id (overwrite_update (\<lambda>_. ''never'')))
         (import_sources 2 ex_state [''/a/x'', ''/a/b/z''])
   \<and> (case import_sources 2 ex_state [''/a/x'', ''/a/b/z''] of
         Some (Inr u, st') \<Rightarrow> length (kconfig_sources st') = 3
       | _ \<Rightarrow> False)"
proof -
  have "case import_sources 2 ex_state [''/a/x'', ''/a/b/z''] of
         Some (Inr u, st') \<Rightarrow> length (kconfig_sources st') = 3
       | _ \<Rightarrow> False"
    by code_simp
  then show ?thesis
    using overwrite_never_consulted [where n = 2 and st = ex_state and v = "''never''"
        and srcs = "[''/a/x'', ''/a/b/z'']"]
    by blast
qed

subsection \<open>Text after the closing quote of a directive\<close>

lemma parse_kconfig_rel:
  "parse_kconfig n st src = Some (Inr rel, st') \<Longrightarrow> get_source_relpath st src = Inr rel"
proof (cases n)
  case 0
  then show "parse_kconfig n st src = Some (Inr rel, st') \<Longrightarrow> ?thesis" by simp
next
  case (Suc m)
  assume "parse_kconfig n st src = Some (Inr rel, st')"
  then have "parse_kconfig (Suc m) st src = Some (Inr rel, st')" using Suc by simp
  then show ?thesis
    by (cases rule: parse_kconfig_Suc_cases) (auto simp: map_sum_def split: sum.splits)
qed

text \<open>
  C9. A line that starts with \<^verbatim>\<open>source\<close>, white space, and a non-empty quoted path
  is a directive whatever follows the closing quote. When the call for the file it names
  returns \<open>rel\<close>, the line written is \<^verbatim>\<open>source "rel"\<close> and a line feed: what followed
  the closing quote is gone. \<open>rel\<close> is the path of the named file relative to the common
  directory.
\<close>

theorem directive_suffix_dropped:
  assumes "\<forall>c \<in> set ws. is_space c" and "p \<noteq> []" and "DQ \<notin> set p"
    and "parse_kconfig n st (join dir p) = Some (Inr rel, st')"
  shows "is_directive (''source'' @ ws @ DQ # p @ DQ # suffix)
         \<and> parse_lines n st dir ((''source'' @ ws @ DQ # p @ DQ # suffix) # ls) out
             = parse_lines n st' dir ls (out @ ''source '' @ [DQ] @ rel @ [DQ, LF])
         \<and> relpath (cwd st) (join dir p) (common_dir st) = Inr rel"
proof -
  have m: "match_source (''source'' @ ws @ DQ # p @ DQ # suffix) = Some p"
    using assms(1,3) by (rule match_source_app)
  have 1: "is_directive (''source'' @ ws @ DQ # p @ DQ # suffix)"
    unfolding is_directive_def m using assms(2) by simp
  have 2: "parse_lines n st dir ((''source'' @ ws @ DQ # p @ DQ # suffix) # ls) out
             = parse_lines n st' dir ls (out @ ''source '' @ [DQ] @ rel @ [DQ, LF])"
    unfolding parse_lines.simps m using assms(2,4) by (simp add: source_line_def)
  have 3: "relpath (cwd st) (join dir p) (common_dir st) = Inr rel"
    using parse_kconfig_rel [OF assms(4)] by (simp add: get_source_relpath_def)
  from 1 2 3 show ?thesis by blast
qed

theorem directive_suffix_dropped_witness:
  "\<exists>st'. parse_kconfig 1 ex_state (join ''/a'' ''b/y'') = Some (Inr ''b/y'', st')
     \<and> is_directive (''source'' @ '' '' @ DQ # ''b/y'' @ DQ # ('' # nested'' @ [LF]))
     \<and> parse_lines 1 ex_state ''/a'' [''source'' @ '' '' @ DQ # ''b/y'' @ DQ # ('' # nested'' @ [LF])] []
          = Some (Inr (), ''source '' @ [DQ] @ ''b/y'' @ [DQ, LF], st')"
proof -
  have "case parse_kconfig 1 ex_state (join ''/a'' ''b/y'') of
          Some (Inr rel, st') \<Rightarrow> rel = ''b/y'' | _ \<Rightarrow> False"
    by code_simp
  then obtain st' where k: "parse_kconfig 1 ex_state (join ''/a'' ''b/y'') = Some (Inr ''b/y'', st')"
    by (auto split: option.splits sum.splits prod.splits)
  have w: "\<forall>c \<in> set '' ''. is_space c" by (simp add: is_space_def)
  have p: "''b/y'' \<noteq> []" "DQ \<notin> set ''b/y''" by simp_all
  show ?thesis
    using k directive_suffix_dropped [OF w p k, of "'' # nested'' @ [LF]" "[]" "[]"]
    by auto
qed

subsection \<open>The common directory\<close>

text \<open>
  C4. For the three paths of the specification \<^verbatim>\<open>commonpath\<close> gives \<^verbatim>\<open>/a\<close>. For a
  single path it gives the path itself, which is the file and not the directory that holds
  it; the path of that file relative to the common directory is then \<^verbatim>\<open>.\<close>.
\<close>

theorem commonpath_of_one_file:
  "commonpath [''/a/b/x.kconfig''] = Inr ''/a/b/x.kconfig''
   \<and> dirname ''/a/b/x.kconfig'' = ''/a/b''
   \<and> relpath ''/w'' ''/a/b/x.kconfig'' ''/a/b/x.kconfig'' = Inr ''.''
   \<and> commonpath [''/a/b/x.kconfig'', ''/a/b/c/y.kconfig'', ''/a/d/z.kconfig''] = Inr ''/a''"
  by code_simp

subsection \<open>Fields that a run leaves alone\<close>

lemma same_object_refl [simp]: "same_object st st"
  by (simp add: same_object_def)

lemma same_object_trans: "same_object a b \<Longrightarrow> same_object b c \<Longrightarrow> same_object a c"
  by (simp add: same_object_def)

lemma same_object_upd [simp]:
  "same_object st (st'\<lparr>fs := f\<rparr>) = same_object st st'"
  "same_object (st\<lparr>fs := f\<rparr>) st' = same_object st st'"
  "same_object st (st'\<lparr>invocations := i\<rparr>) = same_object st st'"
  "same_object (st\<lparr>invocations := i\<rparr>) st' = same_object st st'"
  "same_object st (st'\<lparr>kconfig_sources := ks\<rparr>) = same_object st st'"
  "same_object (st\<lparr>kconfig_sources := ks\<rparr>) st' = same_object st st'"
  by (simp_all add: same_object_def)

lemma parse_same_object_aux:
  "(\<forall>st src r st'. parse_kconfig n st src = Some (r, st') \<longrightarrow> same_object st st') \<and>
   (\<forall>st dir ls out r out' st'.
      parse_lines n st dir ls out = Some (r, out', st') \<longrightarrow> same_object st st')"
proof (rule parse_induct)
  fix n st src r st'
  assume a: "parse_kconfig (Suc n) st src = Some (r, st')"
    and L: "\<And>st dir ls out r out' st'.
          parse_lines n st dir ls out = Some (r, out', st') \<Longrightarrow> same_object st st'"
  from a show "same_object st st'"
  proof (cases rule: parse_kconfig_Suc_cases)
    case (run rel f1 f3 r' out st4)
    from L [OF run(5)] show ?thesis using run(7) by simp
  qed simp_all
next
  fix st :: state and dir :: string and out :: string
  show "same_object st st" by simp
next
  fix n st dir l ls out r out' st'
  assume a: "parse_lines n st dir (l # ls) out = Some (r, out', st')"
    and K: "\<And>st src r st'. parse_kconfig n st src = Some (r, st') \<Longrightarrow> same_object st st'"
    and L: "\<And>st out r out' st'.
          parse_lines n st dir ls out = Some (r, out', st') \<Longrightarrow> same_object st st'"
  from a show "same_object st st'"
  proof (cases rule: parse_lines_Cons_cases)
    case plain
    then show ?thesis using L by blast
  next
    case (nested_error g e)
    then show ?thesis using K by blast
  next
    case (nested g rel st1)
    then show ?thesis using K L same_object_trans by blast
  qed
qed

lemma parse_kconfig_same_object:
  "parse_kconfig n st src = Some (r, st') \<Longrightarrow> same_object st st'"
  using parse_same_object_aux by blast

lemma parse_lines_same_object:
  "parse_lines n st dir ls out = Some (r, out', st') \<Longrightarrow> same_object st st'"
  using parse_same_object_aux by blast

subsection \<open>Source records and calls\<close>

lemma parse_records_aux:
  "(\<forall>st src r st'. parse_kconfig n st src = Some (r, st') \<longrightarrow>
      (\<exists>new. kconfig_sources st' = kconfig_sources st @ new
         \<and> length new + invocations st \<le> invocations st'
         \<and> (returned r \<longrightarrow> length new + invocations st = invocations st'))) \<and>
   (\<forall>st dir ls out r out' st'.
      parse_lines n st dir ls out = Some (r, out', st') \<longrightarrow>
      (\<exists>new. kconfig_sources st' = kconfig_sources st @ new
         \<and> length new + invocations st \<le> invocations st'
         \<and> (returned r \<longrightarrow> length new + invocations st = invocations st')))"
proof (rule parse_induct)
  fix n st src r st'
  assume a: "parse_kconfig (Suc n) st src = Some (r, st')"
    and L: "\<And>st dir ls out r out' st'.
          parse_lines n st dir ls out = Some (r, out', st') \<Longrightarrow>
      (\<exists>new. kconfig_sources st' = kconfig_sources st @ new
         \<and> length new + invocations st \<le> invocations st'
         \<and> (returned r \<longrightarrow> length new + invocations st = invocations st'))"
  from a show "\<exists>new. kconfig_sources st' = kconfig_sources st @ new
         \<and> length new + invocations st \<le> invocations st'
         \<and> (returned r \<longrightarrow> length new + invocations st = invocations st')"
  proof (cases rule: parse_kconfig_Suc_cases)
    case (run rel f1 f3 r' out st4)
    from L [OF run(5)] obtain new where
      "kconfig_sources st4 = (kconfig_sources st @ [{src, join (parent_dir st) rel}]) @ new"
      "length new + Suc (invocations st) \<le> invocations st4"
      "returned r' \<longrightarrow> length new + Suc (invocations st) = invocations st4"
      by auto
    then show ?thesis using run(6,7)
      by (intro exI [of _ "{src, join (parent_dir st) rel} # new"])
         (auto simp: returned_def split: sum.splits)
  qed (simp_all add: returned_def)
next
  fix st :: state and dir :: string and out :: string
  show "\<exists>new. kconfig_sources st = kconfig_sources st @ new
         \<and> length new + invocations st \<le> invocations st
         \<and> (returned (Inr ()) \<longrightarrow> length new + invocations st = invocations st)"
    by simp
next
  fix n st dir l ls out r out' st'
  assume a: "parse_lines n st dir (l # ls) out = Some (r, out', st')"
    and K: "\<And>st src r st'. parse_kconfig n st src = Some (r, st') \<Longrightarrow>
      (\<exists>new. kconfig_sources st' = kconfig_sources st @ new
         \<and> length new + invocations st \<le> invocations st'
         \<and> (returned r \<longrightarrow> length new + invocations st = invocations st'))"
    and L: "\<And>st out r out' st'.
          parse_lines n st dir ls out = Some (r, out', st') \<Longrightarrow>
      (\<exists>new. kconfig_sources st' = kconfig_sources st @ new
         \<and> length new + invocations st \<le> invocations st'
         \<and> (returned r \<longrightarrow> length new + invocations st = invocations st'))"
  from a show "\<exists>new. kconfig_sources st' = kconfig_sources st @ new
         \<and> length new + invocations st \<le> invocations st'
         \<and> (returned r \<longrightarrow> length new + invocations st = invocations st')"
  proof (cases rule: parse_lines_Cons_cases)
    case plain
    then show ?thesis using L by blast
  next
    case (nested_error g e)
    from K [OF nested_error(3)] show ?thesis using nested_error(4)
      by (auto simp: returned_def)
  next
    case (nested g rel st1)
    from K [OF nested(3)] obtain new1 where 1:
      "kconfig_sources st1 = kconfig_sources st @ new1"
      "length new1 + invocations st = invocations st1"
      by (auto simp: returned_def)
    from L [OF nested(4)] obtain new2 where 2:
      "kconfig_sources st' = kconfig_sources st1 @ new2"
      "length new2 + invocations st1 \<le> invocations st'"
      "returned r \<longrightarrow> length new2 + invocations st1 = invocations st'"
      by auto
    from 1 2 show ?thesis
      by (intro exI [of _ "new1 @ new2"]) auto
  qed
qed


lemma parse_kconfig_records:
  assumes "parse_kconfig n st src = Some (r, st')"
  shows "\<exists>new. kconfig_sources st' = kconfig_sources st @ new
         \<and> length new + invocations st \<le> invocations st'
         \<and> (returned r \<longrightarrow> length new + invocations st = invocations st')"
  using parse_records_aux assms by blast

lemma parse_lines_records:
  assumes "parse_lines n st dir ls out = Some (r, out', st')"
  shows "\<exists>new. kconfig_sources st' = kconfig_sources st @ new
         \<and> length new + invocations st \<le> invocations st'
         \<and> (returned r \<longrightarrow> length new + invocations st = invocations st')"
  using parse_records_aux assms by blast

lemma import_loop_Cons_cases:
  assumes "import_loop n st (s # rest) out = Some (r, out', st')"
  obtains
    (failed) e where "parse_kconfig n st s = Some (Inl e, st')" "r = Inl e" "out' = out"
  | (continued) rel st1 where
      "parse_kconfig n st s = Some (Inr rel, st1)"
      "import_loop n st1 rest (out @ source_line rel) = Some (r, out', st')"
  using assms by (auto split: option.splits sum.splits prod.splits)

lemma import_loop_same_object:
  "import_loop n st srcs out = Some (r, out', st') \<Longrightarrow> same_object st st'"
proof (induction srcs arbitrary: st out)
  case Nil
  then show ?case by simp
next
  case (Cons s srcs)
  from Cons.prems show ?case
  proof (cases rule: import_loop_Cons_cases)
    case (failed e)
    then show ?thesis using parse_kconfig_same_object by blast
  next
    case (continued rel st1)
    then show ?thesis
      using parse_kconfig_same_object Cons.IH same_object_trans by blast
  qed
qed

lemma import_loop_records:
  "import_loop n st srcs out = Some (r, out', st') \<Longrightarrow>
     \<exists>new. kconfig_sources st' = kconfig_sources st @ new
         \<and> length new + invocations st \<le> invocations st'
         \<and> (returned r \<longrightarrow> length new + invocations st = invocations st')"
proof (induction srcs arbitrary: st out)
  case Nil
  then show ?case by simp
next
  case (Cons s srcs)
  from Cons.prems show ?case
  proof (cases rule: import_loop_Cons_cases)
    case (failed e)
    from parse_kconfig_records [OF failed(1)] show ?thesis using failed(2)
      by (auto simp: returned_def)
  next
    case (continued rel st1)
    from parse_kconfig_records [OF continued(1)] obtain new1 where 1:
      "kconfig_sources st1 = kconfig_sources st @ new1"
      "length new1 + invocations st = invocations st1"
      by (auto simp: returned_def)
    from Cons.IH [OF continued(2)] obtain new2 where 2:
      "kconfig_sources st' = kconfig_sources st1 @ new2"
      "length new2 + invocations st1 \<le> invocations st'"
      "returned r \<longrightarrow> length new2 + invocations st1 = invocations st'"
      by auto
    from 1 2 show ?thesis
      by (intro exI [of _ "new1 @ new2"]) auto
  qed
qed

lemma import_sources_cases:
  assumes "import_sources n st srcs = Some (r, st')"
  obtains
    (commonpath_error) e where "commonpath srcs = Inl e" "r = Inl e" "st' = st"
  | (open_error) cd e where
      "commonpath srcs = Inr cd" "open_w (fs st) (cwd st) (kconfig_root st) = Inl e"
      "r = Inl e" "st' = st\<lparr>common_dir := cd\<rparr>"
  | (run) cd f2 out st3 where
      "commonpath srcs = Inr cd" "open_w (fs st) (cwd st) (kconfig_root st) = Inr f2"
      "import_loop n (st\<lparr>common_dir := cd, fs := f2\<rparr>) srcs (root_header st) = Some (r, out, st3)"
      "st' = st3\<lparr>fs := close_w (fs st3) (cwd st3) (kconfig_root st3) out\<rparr>"
  using assms unfolding import_sources_def Let_def
  by (auto simp: root_header_def split: sum.splits option.splits prod.splits)

lemma parse_calls_bound_aux:
  "(\<forall>st src r st'. parse_kconfig n st src = Some (r, st') \<longrightarrow>
      invocations st' + length (kconfig_sources st)
        \<le> Suc (length (kconfig_sources st') + invocations st)) \<and>
   (\<forall>st dir ls out r out' st'.
      parse_lines n st dir ls out = Some (r, out', st') \<longrightarrow>
      invocations st' + length (kconfig_sources st)
        \<le> Suc (length (kconfig_sources st') + invocations st))"
proof (rule parse_induct)
  fix n st src r st'
  assume a: "parse_kconfig (Suc n) st src = Some (r, st')"
    and L: "\<And>st dir ls out r out' st'.
          parse_lines n st dir ls out = Some (r, out', st') \<Longrightarrow>
          invocations st' + length (kconfig_sources st)
            \<le> Suc (length (kconfig_sources st') + invocations st)"
  from a show "invocations st' + length (kconfig_sources st)
        \<le> Suc (length (kconfig_sources st') + invocations st)"
  proof (cases rule: parse_kconfig_Suc_cases)
    case (run rel f1 f3 r' out st4)
    from L [OF run(5)] show ?thesis using run(7) by simp
  qed simp_all
next
  fix st :: state and dir :: string and out :: string
  show "invocations st + length (kconfig_sources st)
        \<le> Suc (length (kconfig_sources st) + invocations st)"
    by simp
next
  fix n st dir l ls out r out' st'
  assume a: "parse_lines n st dir (l # ls) out = Some (r, out', st')"
    and K: "\<And>st src r st'. parse_kconfig n st src = Some (r, st') \<Longrightarrow>
          invocations st' + length (kconfig_sources st)
            \<le> Suc (length (kconfig_sources st') + invocations st)"
    and L: "\<And>st out r out' st'.
          parse_lines n st dir ls out = Some (r, out', st') \<Longrightarrow>
          invocations st' + length (kconfig_sources st)
            \<le> Suc (length (kconfig_sources st') + invocations st)"
  from a show "invocations st' + length (kconfig_sources st)
        \<le> Suc (length (kconfig_sources st') + invocations st)"
  proof (cases rule: parse_lines_Cons_cases)
    case plain
    then show ?thesis using L by blast
  next
    case (nested_error g e)
    then show ?thesis using K by blast
  next
    case (nested g rel st1)
    from parse_kconfig_records [OF nested(3)] obtain new1 where
      "kconfig_sources st1 = kconfig_sources st @ new1"
      "length new1 + invocations st = invocations st1"
      by (auto simp: returned_def)
    with L [OF nested(4)] show ?thesis by simp
  qed
qed

lemma parse_kconfig_calls_bound:
  "parse_kconfig n st src = Some (r, st') \<Longrightarrow>
     invocations st' + length (kconfig_sources st)
       \<le> Suc (length (kconfig_sources st') + invocations st)"
  using parse_calls_bound_aux by blast

lemma parse_lines_calls_bound:
  "parse_lines n st dir ls out = Some (r, out', st') \<Longrightarrow>
     invocations st' + length (kconfig_sources st)
       \<le> Suc (length (kconfig_sources st') + invocations st)"
  using parse_calls_bound_aux by blast

lemma parse_kconfig_record:
  assumes "parse_kconfig (Suc n) st src = Some (r, sk)"
  shows "case fst (get_parent_relpath st src) of
           Inl e \<Rightarrow> r = Inl e \<and> kconfig_sources sk = kconfig_sources st
                    \<and> invocations sk = Suc (invocations st)
         | Inr dest \<Rightarrow>
             \<exists>rest. kconfig_sources sk = kconfig_sources st @ {src, dest} # rest
               \<and> Suc (invocations st + length rest) \<le> invocations sk
               \<and> invocations sk \<le> Suc (Suc (invocations st + length rest))
               \<and> (returned r \<longrightarrow> invocations sk = Suc (invocations st + length rest))"
  using assms
proof (cases rule: parse_kconfig_Suc_cases)
  case (relpath_error e)
  then show ?thesis by (simp add: get_parent_relpath_def)
next
  case (makedirs_error rel e)
  then show ?thesis by (simp add: get_parent_relpath_def)
next
  case (open_error rel f1 e)
  then show ?thesis by (simp add: get_parent_relpath_def returned_def)
next
  case (run rel f1 f3 r' out st4)
  let ?dest = "join (parent_dir st) rel"
  from parse_lines_records [OF run(5)] obtain new where new:
    "kconfig_sources st4 = (kconfig_sources st @ [{src, ?dest}]) @ new"
    "length new + Suc (invocations st) \<le> invocations st4"
    "returned r' \<longrightarrow> length new + Suc (invocations st) = invocations st4"
    by auto
  from parse_lines_calls_bound [OF run(5)] new(1)
  have up: "invocations st4 \<le> Suc (Suc (invocations st + length new))" by simp
  have rr: "returned r = returned r'"
    using run(6) by (cases r') (simp_all add: returned_def)
  have "\<exists>rest. kconfig_sources sk = kconfig_sources st @ {src, ?dest} # rest
               \<and> Suc (invocations st + length rest) \<le> invocations sk
               \<and> invocations sk \<le> Suc (Suc (invocations st + length rest))
               \<and> (returned r \<longrightarrow> invocations sk = Suc (invocations st + length rest))"
    using new up rr run(7) by (intro exI [of _ new]) auto
  with run(1,2) show ?thesis by (simp add: get_parent_relpath_def)
qed

text \<open>Reading a successful result off an evaluated run.\<close>

lemma success_caseE:
  assumes "case x of None \<Rightarrow> False | Some (Inl e, s) \<Rightarrow> False | Some (Inr u, s) \<Rightarrow> Q u s"
  obtains u s where "x = Some (Inr u, s)" "Q u s"
proof (cases x)
  case None
  with assms show ?thesis by simp
next
  case (Some p)
  obtain r s where p: "p = (r, s)" by (cases p)
  show ?thesis
  proof (cases r)
    case (Inl e)
    with assms Some p show ?thesis by simp
  next
    case (Inr u)
    with assms Some p that show ?thesis by simp
  qed
qed

text \<open>
  C7, as the code has it. A call of \<open>parse_kconfig\<close> first maps the path (lines 53 and
  54). When that raises, the call ends there: it has been counted and has appended no
  record. Otherwise it appends one record, the set of the source path and the
  destination path, before it opens the files, whether or not it returns normally later;
  the records of the calls made for the directives follow, nothing is merged, and at most
  one of all these calls has appended no record. When \<open>import_sources\<close> returns normally
  for a fresh object, the number of records, which is the number that \<open>summary\<close> reports,
  is the number of calls of \<open>parse_kconfig\<close>.
\<close>

theorem records_and_calls:
  "(parse_kconfig (Suc n) st src = Some (r, sk) \<longrightarrow>
      (case fst (get_parent_relpath st src) of
         Inl e \<Rightarrow> r = Inl e \<and> kconfig_sources sk = kconfig_sources st
                  \<and> invocations sk = Suc (invocations st)
       | Inr dest \<Rightarrow>
           \<exists>rest. kconfig_sources sk = kconfig_sources st @ {src, dest} # rest
             \<and> Suc (invocations st + length rest) \<le> invocations sk
             \<and> invocations sk \<le> Suc (Suc (invocations st + length rest))
             \<and> (returned r \<longrightarrow> invocations sk = Suc (invocations st + length rest))))
   \<and> (kconfig_sources st = [] \<and> invocations st = 0
        \<and> import_sources m st srcs = Some (Inr u, si) \<longrightarrow>
      length (kconfig_sources si) = invocations si
      \<and> summary si = [''Imported '' @ show_nat (invocations si) @ '' kconfig sources'',
                        ''Generator Kconfig at '' @ kconfig_root st])"
proof -
  have 1: "case fst (get_parent_relpath st src) of
         Inl e \<Rightarrow> r = Inl e \<and> kconfig_sources sk = kconfig_sources st
                  \<and> invocations sk = Suc (invocations st)
       | Inr dest \<Rightarrow>
           \<exists>rest. kconfig_sources sk = kconfig_sources st @ {src, dest} # rest
             \<and> Suc (invocations st + length rest) \<le> invocations sk
             \<and> invocations sk \<le> Suc (Suc (invocations st + length rest))
             \<and> (returned r \<longrightarrow> invocations sk = Suc (invocations st + length rest))"
    if "parse_kconfig (Suc n) st src = Some (r, sk)"
    using that by (rule parse_kconfig_record)
  have 2: "length (kconfig_sources si) = invocations si
      \<and> summary si = [''Imported '' @ show_nat (invocations si) @ '' kconfig sources'',
                        ''Generator Kconfig at '' @ kconfig_root st]"
    if a: "kconfig_sources st = [] \<and> invocations st = 0
        \<and> import_sources m st srcs = Some (Inr u, si)"
  proof -
    from a have "import_sources m st srcs = Some (Inr u, si)" by simp
    then have "length (kconfig_sources si) = invocations si \<and> kconfig_root si = kconfig_root st"
    proof (cases rule: import_sources_cases)
      case (run cd f2 out st3)
      from import_loop_records [OF run(3)] a have "length (kconfig_sources st3) = invocations st3"
        by (auto simp: returned_def)
      moreover from import_loop_same_object [OF run(3)] have "kconfig_root st3 = kconfig_root st"
        by (simp add: same_object_def)
      ultimately show ?thesis using run(4) by simp
    qed simp_all
    then show ?thesis by (simp add: summary_def)
  qed
  from 1 2 show ?thesis by blast
qed

theorem records_and_calls_witness:
  "(\<exists>sk rest. parse_kconfig (Suc 1) ex_state ''/a/x'' = Some (Inr ''x'', sk)
      \<and> fst (get_parent_relpath ex_state ''/a/x'') = Inr ''/out/x''
      \<and> kconfig_sources sk = kconfig_sources ex_state @ {''/a/x'', ''/out/x''} # rest
      \<and> invocations sk = Suc (invocations ex_state + length rest))
   \<and> (\<exists>sk. parse_kconfig (Suc 0) ex_blocked ''/a/b/z'' = Some (Inl (FileExistsError ''/out/b''), sk)
      \<and> fst (get_parent_relpath ex_blocked ''/a/b/z'') = Inl (FileExistsError ''/out/b'')
      \<and> kconfig_sources sk = kconfig_sources ex_blocked
      \<and> invocations sk = Suc (invocations ex_blocked))
   \<and> (\<exists>si. kconfig_sources ex_state = [] \<and> invocations ex_state = 0
        \<and> import_sources 2 ex_state [''/a/b/y'', ''/a/x''] = Some (Inr (), si)
        \<and> invocations si = 3
        \<and> length (kconfig_sources si) = invocations si
        \<and> summary si = [''Imported '' @ show_nat (invocations si) @ '' kconfig sources'',
                        ''Generator Kconfig at '' @ kconfig_root ex_state])"
proof -
  have "case parse_kconfig (Suc 1) ex_state ''/a/x'' of
          None \<Rightarrow> False | Some (Inl e, sk) \<Rightarrow> False | Some (Inr rel, sk) \<Rightarrow> rel = ''x''"
    by code_simp
  then obtain rel sk where "parse_kconfig (Suc 1) ex_state ''/a/x'' = Some (Inr rel, sk)"
    and "rel = ''x''"
    by (rule success_caseE)
  then have 1: "parse_kconfig (Suc 1) ex_state ''/a/x'' = Some (Inr ''x'', sk)" by simp
  have d: "fst (get_parent_relpath ex_state ''/a/x'') = Inr ''/out/x''" by code_simp
  note A = records_and_calls [where n = 1 and st = ex_state and src = "''/a/x''"
      and r = "Inr ''x''" and sk = sk, THEN conjunct1, rule_format, OF 1]
  from A d have A': "\<exists>rest. kconfig_sources sk = kconfig_sources ex_state @ {''/a/x'', ''/out/x''} # rest
      \<and> invocations sk = Suc (invocations ex_state + length rest)"
    by (auto simp: returned_def)
  have "case parse_kconfig (Suc 0) ex_blocked ''/a/b/z'' of
          None \<Rightarrow> False | Some (Inr rel, sb) \<Rightarrow> False
        | Some (Inl e, sb) \<Rightarrow> e = FileExistsError ''/out/b''"
    by code_simp
  then obtain sb where 2: "parse_kconfig (Suc 0) ex_blocked ''/a/b/z''
      = Some (Inl (FileExistsError ''/out/b''), sb)"
    by (auto split: option.splits sum.splits prod.splits)
  have db: "fst (get_parent_relpath ex_blocked ''/a/b/z'') = Inl (FileExistsError ''/out/b'')"
    by code_simp
  note B = records_and_calls [where n = 0 and st = ex_blocked and src = "''/a/b/z''"
      and r = "Inl (FileExistsError ''/out/b'')" and sk = sb, THEN conjunct1, rule_format, OF 2]
  from B db have B': "kconfig_sources sb = kconfig_sources ex_blocked
      \<and> invocations sb = Suc (invocations ex_blocked)"
    by simp
  have "case import_sources 2 ex_state [''/a/b/y'', ''/a/x''] of
          None \<Rightarrow> False | Some (Inl e, si) \<Rightarrow> False
        | Some (Inr u, si) \<Rightarrow> invocations si = 3"
    by code_simp
  then obtain u si where "import_sources 2 ex_state [''/a/b/y'', ''/a/x''] = Some (Inr u, si)"
    and i3: "invocations si = 3"
    by (rule success_caseE)
  then have 3: "import_sources 2 ex_state [''/a/b/y'', ''/a/x''] = Some (Inr (), si)"
    by simp
  have e: "kconfig_sources ex_state = []" "invocations ex_state = 0"
    by (simp_all add: ex_state_def)
  note C = records_and_calls [where st = ex_state and m = 2 and srcs = "[''/a/b/y'', ''/a/x'']"
      and u = "()" and si = si, THEN conjunct2, rule_format]
  from C 3 e have C': "length (kconfig_sources si) = invocations si
        \<and> summary si = [''Imported '' @ show_nat (invocations si) @ '' kconfig sources'',
                        ''Generator Kconfig at '' @ kconfig_root ex_state]"
    by blast
  from 1 d A' 2 db B' 3 e i3 C' show ?thesis by blast
qed

text \<open>
  The claim has every call append a record. With a regular file at \<^verbatim>\<open>/out/b\<close>, where the
  directory for the copy of \<^verbatim>\<open>/a/b/z\<close> should be, the call for \<^verbatim>\<open>/a/b/z\<close> raises at line 54,
  before line 58: it is a call and it appends nothing. In a run on \<^verbatim>\<open>/a/x\<close> and \<^verbatim>\<open>/a/b/z\<close>
  the call for \<^verbatim>\<open>/a/x\<close> appends its record and the call made for its directive raises in
  the same way: two calls, one record.
\<close>

theorem call_without_record:
  "(case parse_kconfig 1 ex_blocked ''/a/b/z'' of
      None \<Rightarrow> False
    | Some (Inr rel, s) \<Rightarrow> False
    | Some (Inl e, s) \<Rightarrow>
        e = FileExistsError ''/out/b''
        \<and> invocations s = Suc (invocations ex_blocked)
        \<and> length (kconfig_sources s) = length (kconfig_sources ex_blocked))
   \<and> (case import_sources 2 ex_blocked [''/a/x'', ''/a/b/z''] of
      None \<Rightarrow> False
    | Some (Inr u, s) \<Rightarrow> False
    | Some (Inl e, s) \<Rightarrow>
        e = FileExistsError ''/out/b''
        \<and> invocations ex_blocked = 0 \<and> invocations s = 2
        \<and> kconfig_sources ex_blocked = [] \<and> length (kconfig_sources s) = 1)"
proof -
  have 1: "case parse_kconfig 1 ex_blocked ''/a/b/z'' of
      None \<Rightarrow> False
    | Some (Inr rel, s) \<Rightarrow> False
    | Some (Inl e, s) \<Rightarrow>
        e = FileExistsError ''/out/b''
        \<and> invocations s = Suc (invocations ex_blocked)
        \<and> length (kconfig_sources s) = length (kconfig_sources ex_blocked)"
    by code_simp
  have 2: "case import_sources 2 ex_blocked [''/a/x'', ''/a/b/z''] of
      None \<Rightarrow> False
    | Some (Inr u, s) \<Rightarrow> False
    | Some (Inl e, s) \<Rightarrow>
        e = FileExistsError ''/out/b''
        \<and> invocations ex_blocked = 0 \<and> invocations s = 2
        \<and> kconfig_sources ex_blocked = [] \<and> length (kconfig_sources s) = 1"
    by code_simp
  from 1 2 show ?thesis by (rule conjI)
qed

subsection \<open>Validation of the inputs\<close>

lemma check_sources_fails:
  assumes "s \<in> set srcs" and "\<not> isfile f wd (make_absolute wd s)"
  shows "\<exists>p \<in> set srcs.
           \<not> isfile f wd (make_absolute wd p)
           \<and> check_sources f wd srcs =
               Inl (Exception
                 ((if exists_path f wd (make_absolute wd p)
                   then ''Not a file: '' else ''Could not find file: '')
                  @ (make_absolute wd p)))"
  using assms
proof (induction srcs)
  case Nil
  then show ?case by simp
next
  case (Cons a srcs)
  let ?a = "make_absolute wd a"
  show ?case
  proof (cases "isfile f wd ?a")
    case False
    then have "check_sources f wd (a # srcs) =
        Inl (Exception ((if exists_path f wd ?a then ''Not a file: '' else ''Could not find file: '') @ ?a))"
      by (simp add: Let_def)
    with False show ?thesis by (intro bexI [of _ a]) simp_all
  next
    case True
    then have ex: "exists_path f wd ?a"
      by (auto simp: isfile_def exists_path_def is_file_node_def split: option.splits)
    from True Cons.prems have "s \<in> set srcs" by auto
    from Cons.IH [OF this Cons.prems(2)] obtain p where p: "p \<in> set srcs"
      "\<not> isfile f wd (make_absolute wd p)"
      "check_sources f wd srcs =
               Inl (Exception
                 ((if exists_path f wd (make_absolute wd p)
                   then ''Not a file: '' else ''Could not find file: '')
                  @ (make_absolute wd p)))"
      by blast
    have "check_sources f wd (a # srcs) = check_sources f wd srcs"
      using True ex p(3) by (simp add: Let_def)
    with p show ?thesis by (intro bexI [of _ p]) simp_all
  qed
qed

text \<open>
  C5. When some path of the list, made absolute, is not a regular file, \<open>main\<close> ends
  with an exception whose message ends with such a path of the list, in its absolute
  form: \<^verbatim>\<open>Could not find file:\<close> when it does not exist, \<^verbatim>\<open>Not a file:\<close> otherwise. This
  happens whatever the bound on the recursion, and the filesystem is the one the run
  started with: the object has not been built and nothing has been written.
\<close>

theorem invalid_source_rejected:
  assumes "s \<in> set srcs" and "\<not> isfile f wd (make_absolute wd s)"
  shows "\<exists>p \<in> set srcs.
           \<not> isfile f wd (make_absolute wd p)
           \<and> main n f wd ttl kconfig srcs =
               Some (Inl (Exception
                 ((if exists_path f wd (make_absolute wd p)
                   then ''Not a file: '' else ''Could not find file: '')
                  @ (make_absolute wd p))), f)"
proof -
  from check_sources_fails [OF assms] obtain p where p: "p \<in> set srcs"
      "\<not> isfile f wd (make_absolute wd p)"
      "check_sources f wd srcs =
               Inl (Exception
                 ((if exists_path f wd (make_absolute wd p)
                   then ''Not a file: '' else ''Could not find file: '')
                  @ (make_absolute wd p)))"
    by blast
  from p(3) have "main n f wd ttl kconfig srcs =
               Some (Inl (Exception
                 ((if exists_path f wd (make_absolute wd p)
                   then ''Not a file: '' else ''Could not find file: '')
                  @ (make_absolute wd p))), f)"
    by (simp add: main_def)
  with p(1,2) show ?thesis by blast
qed

theorem invalid_source_rejected_witness:
  "''/tmp/missing.kconfig'' \<in> set [''/a/x'', ''/tmp/missing.kconfig'']
   \<and> \<not> isfile ex_fs ''/w'' ''/tmp/missing.kconfig''
   \<and> main 0 ex_fs ''/w'' ''Demo'' ''/out/Kconfig'' [''/a/x'', ''/tmp/missing.kconfig'']
       = Some (Inl (Exception ''Could not find file: /tmp/missing.kconfig''), ex_fs)"
proof -
  have a: "''/tmp/missing.kconfig'' \<in> set [''/a/x'', ''/tmp/missing.kconfig'']" by simp
  have b: "\<not> isfile ex_fs ''/w'' ''/tmp/missing.kconfig''" by code_simp
  have c: "isfile ex_fs ''/w'' ''/a/x''" by code_simp
  have d: "\<not> exists_path ex_fs ''/w'' ''/tmp/missing.kconfig''" by code_simp
  have m: "make_absolute ''/w'' ''/tmp/missing.kconfig'' = ''/tmp/missing.kconfig''"
    "make_absolute ''/w'' ''/a/x'' = ''/a/x''"
    by (simp_all add: make_absolute_def isabs_def)
  from b m have b': "\<not> isfile ex_fs ''/w'' (make_absolute ''/w'' ''/tmp/missing.kconfig'')"
    by simp
  from invalid_source_rejected [OF a b', of 0 "''Demo''" "''/out/Kconfig''"]
  obtain p where p: "p \<in> set [''/a/x'', ''/tmp/missing.kconfig'']"
    "\<not> isfile ex_fs ''/w'' (make_absolute ''/w'' p)"
    "main 0 ex_fs ''/w'' ''Demo'' ''/out/Kconfig'' [''/a/x'', ''/tmp/missing.kconfig''] =
               Some (Inl (Exception
                 ((if exists_path ex_fs ''/w'' (make_absolute ''/w'' p)
                   then ''Not a file: '' else ''Could not find file: '')
                  @ (make_absolute ''/w'' p))), ex_fs)"
    by blast
  from p(1) have "p = ''/a/x'' \<or> p = ''/tmp/missing.kconfig''" by simp
  with p(2) c m have "p = ''/tmp/missing.kconfig''" by metis
  with p(3) m d have "main 0 ex_fs ''/w'' ''Demo'' ''/out/Kconfig'' [''/a/x'', ''/tmp/missing.kconfig'']
       = Some (Inl (Exception ''Could not find file: /tmp/missing.kconfig''), ex_fs)"
    by simp
  with a b show ?thesis by blast
qed

subsection \<open>What a run changes in the filesystem\<close>

lemma dir_chain_mem:
  assumes "a \<in> set (dir_chain k)"
  shows "a \<in> set (dir_chain (butlast k)) \<or> a = k"
proof -
  from assms obtain i where i: "1 \<le> i" "i \<le> length k" "a = take i k"
    by (auto simp: dir_chain_def)
  show ?thesis
  proof (cases "i = length k")
    case True
    with i show ?thesis by simp
  next
    case False
    with i have "i < length k" by simp
    then have "take i (butlast k) = take i k" by (simp add: take_butlast)
    moreover have "i \<le> length (butlast k)" using \<open>i < length k\<close> by simp
    ultimately have "a \<in> set (dir_chain (butlast k))"
      using i(1,3) unfolding dir_chain_def set_map
      by (intro image_eqI [of _ _ i]) auto
    then show ?thesis by simp
  qed
qed

lemma dir_chain_nonempty: "a \<in> set (dir_chain k) \<Longrightarrow> a \<noteq> []"
  by (auto simp: dir_chain_def)

lemma makedirs_file:
  assumes "makedirs f wd name = Inr f'"
  shows "f' k = Some (File c) \<longleftrightarrow> f k = Some (File c)"
proof -
  let ?k = "path_key wd name"
  from assms have ok: "\<forall>a \<in> set (dir_chain (butlast ?k)). \<not> is_file_node (f a)"
    "?k = [] \<or> \<not> is_file_node (f ?k)"
    and f': "f' = (\<lambda>a. if a \<in> set (dir_chain ?k) then Some Dir else f a)"
    by (auto simp: makedirs_def Let_def split: if_splits)
  show ?thesis
  proof (cases "k \<in> set (dir_chain ?k)")
    case False
    with f' show ?thesis by simp
  next
    case True
    then have "k \<in> set (dir_chain (butlast ?k)) \<or> k = ?k" by (rule dir_chain_mem)
    moreover from True have "k \<noteq> []" by (rule dir_chain_nonempty)
    ultimately have "\<not> is_file_node (f k)" using ok by auto
    then have "f k \<noteq> Some (File c)" by (auto simp: is_file_node_def)
    with True f' show ?thesis by simp
  qed
qed

lemma open_w_fs:
  "open_w f wd p = Inr f' \<Longrightarrow> f' = f(path_key wd p \<mapsto> File [])"
  by (auto simp: open_w_def Let_def split: if_splits option.splits node.splits)

lemma open_r_file:
  "open_r f wd p = Inr u \<Longrightarrow> \<exists>c. f (path_key wd p) = Some (File c)"
  by (auto simp: open_r_def split: if_splits option.splits node.splits)

lemma record_keys_simps [simp]:
  "record_keys wd [] = {}"
  "record_keys wd (r # rs) = path_key wd ` r \<union> record_keys wd rs"
  "record_keys wd (xs @ ys) = record_keys wd xs \<union> record_keys wd ys"
  by (auto simp: record_keys_def)

lemma parse_frame_aux:
  "(\<forall>st src r st'. parse_kconfig n st src = Some (r, st') \<longrightarrow>
      (\<forall>k c. fs st k = Some (File c) \<longrightarrow>
         k \<notin> record_keys (cwd st) (drop (length (kconfig_sources st)) (kconfig_sources st')) \<longrightarrow>
         fs st' k = Some (File c))) \<and>
   (\<forall>st dir ls out r out' st'.
      parse_lines n st dir ls out = Some (r, out', st') \<longrightarrow>
      (\<forall>k c. fs st k = Some (File c) \<longrightarrow>
         k \<notin> record_keys (cwd st) (drop (length (kconfig_sources st)) (kconfig_sources st')) \<longrightarrow>
         fs st' k = Some (File c)))"
proof (rule parse_induct)
  fix n st src r st'
  assume a: "parse_kconfig (Suc n) st src = Some (r, st')"
    and L: "\<And>st dir ls out r out' st'.
          parse_lines n st dir ls out = Some (r, out', st') \<Longrightarrow>
      (\<forall>k c. fs st k = Some (File c) \<longrightarrow>
         k \<notin> record_keys (cwd st) (drop (length (kconfig_sources st)) (kconfig_sources st')) \<longrightarrow>
         fs st' k = Some (File c))"
  show "\<forall>k c. fs st k = Some (File c) \<longrightarrow>
         k \<notin> record_keys (cwd st) (drop (length (kconfig_sources st)) (kconfig_sources st')) \<longrightarrow>
         fs st' k = Some (File c)"
  proof (intro allI impI)
    fix k c
    assume k: "fs st k = Some (File c)"
      and nk: "k \<notin> record_keys (cwd st) (drop (length (kconfig_sources st)) (kconfig_sources st'))"
    from a show "fs st' k = Some (File c)"
    proof (cases rule: parse_kconfig_Suc_cases)
      case (relpath_error e)
      with k show ?thesis by simp
    next
      case (makedirs_error rel e)
      with k show ?thesis by simp
    next
      case (open_error rel f1 e)
      with k makedirs_file [OF open_error(2)] show ?thesis by simp
    next
      case (run rel f1 f3 r' out st4)
      let ?dest = "join (parent_dir st) rel"
      let ?st2 = "st\<lparr>invocations := Suc (invocations st),
               kconfig_sources := kconfig_sources st @ [{src, ?dest}], fs := f3\<rparr>"
      from parse_lines_records [OF run(5)] obtain new where
        new: "kconfig_sources st4 = (kconfig_sources st @ [{src, ?dest}]) @ new"
        by auto
      with run(7) have ks: "drop (length (kconfig_sources st)) (kconfig_sources st') = {src, ?dest} # new"
        by simp
      from nk ks have kd: "k \<noteq> path_key (cwd st) ?dest" and knew: "k \<notin> record_keys (cwd st) new"
        by auto
      from k makedirs_file [OF run(2)] have "f1 k = Some (File c)" by simp
      with open_w_fs [OF run(4)] kd have "fs ?st2 k = Some (File c)" by simp
      moreover have "k \<notin> record_keys (cwd ?st2)
          (drop (length (kconfig_sources ?st2)) (kconfig_sources st4))"
        using knew new by simp
      ultimately have "fs st4 k = Some (File c)" using L [OF run(5)] by blast
      moreover have "cwd st4 = cwd st"
        using parse_lines_same_object [OF run(5)] by (simp add: same_object_def)
      ultimately show ?thesis using run(7) kd by (simp add: close_w_def Let_def)
    qed
  qed
next
  fix st :: state and dir :: string and out :: string
  show "\<forall>k c. fs st k = Some (File c) \<longrightarrow>
         k \<notin> record_keys (cwd st) (drop (length (kconfig_sources st)) (kconfig_sources st)) \<longrightarrow>
         fs st k = Some (File c)"
    by simp
next
  fix n st dir l ls out r out' st'
  assume a: "parse_lines n st dir (l # ls) out = Some (r, out', st')"
    and K: "\<And>st src r st'. parse_kconfig n st src = Some (r, st') \<Longrightarrow>
      (\<forall>k c. fs st k = Some (File c) \<longrightarrow>
         k \<notin> record_keys (cwd st) (drop (length (kconfig_sources st)) (kconfig_sources st')) \<longrightarrow>
         fs st' k = Some (File c))"
    and L: "\<And>st out r out' st'.
          parse_lines n st dir ls out = Some (r, out', st') \<Longrightarrow>
      (\<forall>k c. fs st k = Some (File c) \<longrightarrow>
         k \<notin> record_keys (cwd st) (drop (length (kconfig_sources st)) (kconfig_sources st')) \<longrightarrow>
         fs st' k = Some (File c))"
  show "\<forall>k c. fs st k = Some (File c) \<longrightarrow>
         k \<notin> record_keys (cwd st) (drop (length (kconfig_sources st)) (kconfig_sources st')) \<longrightarrow>
         fs st' k = Some (File c)"
  proof (intro allI impI)
    fix k c
    assume k: "fs st k = Some (File c)"
      and nk: "k \<notin> record_keys (cwd st) (drop (length (kconfig_sources st)) (kconfig_sources st'))"
    from a show "fs st' k = Some (File c)"
    proof (cases rule: parse_lines_Cons_cases)
      case plain
      with L k nk show ?thesis by blast
    next
      case (nested_error g e)
      with K k nk show ?thesis by blast
    next
      case (nested g rel st1)
      from parse_kconfig_records [OF nested(3)] obtain new1 where
        1: "kconfig_sources st1 = kconfig_sources st @ new1" by auto
      from parse_lines_records [OF nested(4)] obtain new2 where
        2: "kconfig_sources st' = kconfig_sources st1 @ new2" by auto
      have c1: "cwd st1 = cwd st"
        using parse_kconfig_same_object [OF nested(3)] by (simp add: same_object_def)
      from nk 1 2 have n1: "k \<notin> record_keys (cwd st) new1" and n2: "k \<notin> record_keys (cwd st) new2"
        by auto
      from K [OF nested(3)] k n1 1 have "fs st1 k = Some (File c)" by simp
      with L [OF nested(4)] n2 2 c1 show ?thesis by simp
    qed
  qed
qed

lemma parse_kconfig_frame:
  assumes "parse_kconfig n st src = Some (r, st')" and "fs st k = Some (File c)"
    and "k \<notin> record_keys (cwd st) (drop (length (kconfig_sources st)) (kconfig_sources st'))"
  shows "fs st' k = Some (File c)"
  using parse_frame_aux assms by blast

lemma parse_lines_frame:
  assumes "parse_lines n st dir ls out = Some (r, out', st')" and "fs st k = Some (File c)"
    and "k \<notin> record_keys (cwd st) (drop (length (kconfig_sources st)) (kconfig_sources st'))"
  shows "fs st' k = Some (File c)"
  using parse_frame_aux assms by blast

subsection \<open>The text written for a file\<close>

lemma spec_output_line_plain:
  "\<not> is_directive l \<Longrightarrow> spec_output_line wd cd dir l = Inr l"
  by (auto simp: spec_output_line_def is_directive_def split: option.splits)

lemma spec_output_line_directive:
  "match_source l = Some g \<Longrightarrow> g \<noteq> [] \<Longrightarrow> relpath wd (join dir g) cd = Inr rel \<Longrightarrow>
     spec_output_line wd cd dir l = Inr (source_line rel)"
  by (simp add: spec_output_line_def source_line_def)

lemma parse_lines_output:
  "parse_lines n st dir ls out = Some (Inr u, out', st') \<Longrightarrow>
     \<exists>outs. out' = out @ concat outs
       \<and> list_all2 (\<lambda>l w. spec_output_line (cwd st) (common_dir st) dir l = Inr w) ls outs"
proof (induction ls arbitrary: st out)
  case Nil
  then show ?case by simp
next
  case (Cons l ls)
  from Cons.prems show ?case
  proof (cases rule: parse_lines_Cons_cases)
    case plain
    from Cons.IH [OF plain(2)] obtain outs where
      "out' = (out @ l) @ concat outs"
      "list_all2 (\<lambda>l w. spec_output_line (cwd st) (common_dir st) dir l = Inr w) ls outs"
      by blast
    with spec_output_line_plain [OF plain(1)] show ?thesis
      by (intro exI [of _ "l # outs"]) simp
  next
    case (nested_error g e)
    then show ?thesis by simp
  next
    case (nested g rel st1)
    have so: "cwd st1 = cwd st" "common_dir st1 = common_dir st"
      using parse_kconfig_same_object [OF nested(3)] by (simp_all add: same_object_def)
    from Cons.IH [OF nested(4)] so obtain outs where
      "out' = (out @ source_line rel) @ concat outs"
      "list_all2 (\<lambda>l w. spec_output_line (cwd st) (common_dir st) dir l = Inr w) ls outs"
      by auto
    moreover have "spec_output_line (cwd st) (common_dir st) dir l = Inr (source_line rel)"
      using nested(1,2) parse_kconfig_rel [OF nested(3)]
      by (intro spec_output_line_directive) (simp_all add: get_source_relpath_def)
    ultimately show ?thesis
      by (intro exI [of _ "source_line rel # outs"]) simp
  qed
qed

lemma read_text_close_w:
  "read_text (close_w f wd p buf) wd p = buf @ drop (length buf) (read_text f wd p)"
  by (simp add: close_w_def read_text_def Let_def)

text \<open>
  What a call that returns has written: one line for each line it read, in the same
  order, a directive replaced by \<^verbatim>\<open>source "relPath"\<close> and a line feed, any other line
  as it was. The lines it read are those of the source file when the destination is
  another file, and the destination holds nothing else when no call made for the
  directives names the same place in its record.
\<close>

lemma transformed_file_lines:
  assumes "parse_kconfig (Suc n) st src = Some (Inr rel, st')"
  shows "\<exists>outs tail.
           list_all2 (\<lambda>l w. spec_output_line (cwd st) (common_dir st) (dirname src) l = Inr w)
             (if path_key (cwd st) src = path_key (cwd st) (join (parent_dir st) rel) then []
              else readlines (read_text (fs st) (cwd st) src))
             outs
         \<and> read_text (fs st') (cwd st) (join (parent_dir st) rel) = concat outs @ tail
         \<and> (path_key (cwd st) (join (parent_dir st) rel)
               \<notin> record_keys (cwd st) (drop (Suc (length (kconfig_sources st))) (kconfig_sources st'))
             \<longrightarrow> tail = [])"
  using assms
proof (cases rule: parse_kconfig_Suc_cases)
  case (run rel' f1 f3 r' out st4)
  from run(6) obtain u where r': "r' = Inr u" and rel: "rel' = rel"
    by (cases r') simp_all
  let ?wd = "cwd st"
  let ?dest = "join (parent_dir st) rel"
  let ?kd = "path_key ?wd ?dest"
  let ?st2 = "st\<lparr>invocations := Suc (invocations st),
               kconfig_sources := kconfig_sources st @ [{src, ?dest}], fs := f3\<rparr>"
  note pl = run(5) [unfolded rel r']
  have f3: "f3 = f1(?kd \<mapsto> File [])" using open_w_fs [OF run(4)] rel by simp
  have lines: "readlines (read_text f3 ?wd src) =
      (if path_key ?wd src = ?kd then [] else readlines (read_text (fs st) ?wd src))"
  proof (cases "path_key ?wd src = ?kd")
    case True
    then show ?thesis by (simp add: f3 read_text_def readlines_def)
  next
    case False
    from open_r_file [OF run(3)] obtain c where "f1 (path_key ?wd src) = Some (File c)" by blast
    moreover from this makedirs_file [OF run(2)] have "fs st (path_key ?wd src) = Some (File c)"
      by simp
    ultimately show ?thesis using False by (simp add: f3 read_text_def)
  qed
  from parse_lines_output [OF pl] obtain outs where outs: "out = concat outs"
    "list_all2 (\<lambda>l w. spec_output_line ?wd (common_dir st) (dirname src) l = Inr w)
       (readlines (read_text f3 ?wd src)) outs"
    by auto
  have c4: "cwd st4 = ?wd"
    using parse_lines_same_object [OF pl] by (simp add: same_object_def)
  define tail where "tail = drop (length out) (read_text (fs st4) ?wd ?dest)"
  have content: "read_text (fs st') ?wd ?dest = concat outs @ tail"
    using run(7) rel c4 outs(1) by (simp add: read_text_close_w tail_def)
  have empty: "tail = []"
    if nk: "?kd \<notin> record_keys ?wd (drop (Suc (length (kconfig_sources st))) (kconfig_sources st'))"
  proof -
    have "fs ?st2 ?kd = Some (File [])" by (simp add: f3)
    moreover have "?kd \<notin> record_keys (cwd ?st2)
        (drop (length (kconfig_sources ?st2)) (kconfig_sources st4))"
      using nk run(7) by simp
    ultimately have "fs st4 ?kd = Some (File [])"
      using parse_lines_frame [OF pl] by blast
    then show ?thesis by (simp add: tail_def read_text_def)
  qed
  have all2: "list_all2 (\<lambda>l w. spec_output_line ?wd (common_dir st) (dirname src) l = Inr w)
       (if path_key ?wd src = ?kd then [] else readlines (read_text (fs st) ?wd src)) outs"
    using outs(2) unfolding lines .
  show ?thesis
    by (rule exI [of _ outs], rule exI [of _ tail]) (use all2 content empty in blast)
qed simp_all

lemma transformed_file_lines_example:
  "\<exists>st'. parse_kconfig (Suc 1) ex_state ''/a/x'' = Some (Inr ''x'', st')
     \<and> read_text (fs st') ''/w'' ''/out/x'' = ''config A'' @ [LF] @ ''source '' @ [DQ] @ ''b/y'' @ [DQ, LF]
     \<and> (\<exists>outs tail.
           list_all2 (\<lambda>l w. spec_output_line (cwd ex_state) (common_dir ex_state) (dirname ''/a/x'') l = Inr w)
             (if path_key (cwd ex_state) ''/a/x'' = path_key (cwd ex_state) (join (parent_dir ex_state) ''x'') then []
              else readlines (read_text (fs ex_state) (cwd ex_state) ''/a/x''))
             outs
         \<and> read_text (fs st') (cwd ex_state) (join (parent_dir ex_state) ''x'') = concat outs @ tail
         \<and> (path_key (cwd ex_state) (join (parent_dir ex_state) ''x'')
               \<notin> record_keys (cwd ex_state) (drop (Suc (length (kconfig_sources ex_state))) (kconfig_sources st'))
             \<longrightarrow> tail = []))"
proof -
  have "case parse_kconfig (Suc 1) ex_state ''/a/x'' of
          None \<Rightarrow> False | Some (Inl e, st') \<Rightarrow> False
        | Some (Inr rel, st') \<Rightarrow> rel = ''x''
            \<and> read_text (fs st') ''/w'' ''/out/x''
                = ''config A'' @ [LF] @ ''source '' @ [DQ] @ ''b/y'' @ [DQ, LF]"
    by code_simp
  then obtain rel st' where "parse_kconfig (Suc 1) ex_state ''/a/x'' = Some (Inr rel, st')"
    and "rel = ''x''
            \<and> read_text (fs st') ''/w'' ''/out/x''
                = ''config A'' @ [LF] @ ''source '' @ [DQ] @ ''b/y'' @ [DQ, LF]"
    by (rule success_caseE)
  then have k: "parse_kconfig (Suc 1) ex_state ''/a/x'' = Some (Inr ''x'', st')"
    and t: "read_text (fs st') ''/w'' ''/out/x''
                = ''config A'' @ [LF] @ ''source '' @ [DQ] @ ''b/y'' @ [DQ, LF]"
    by simp_all
  from k t transformed_file_lines [OF k] show ?thesis by blast
qed

text \<open>
  C3. The source file \<^verbatim>\<open>/a/x\<close> holds one directive that names the existing file
  \<^verbatim>\<open>/a/b/y\<close> and one other line, so that its transformed file should hold one rewritten
  and one unchanged line. With the root file \<^verbatim>\<open>/a/root.kconfig\<close> the output directory is
  the common directory \<^verbatim>\<open>/a\<close> and the destination of \<^verbatim>\<open>/a/x\<close> is \<^verbatim>\<open>/a/x\<close> itself: line 61
  opens it for writing, and so empties it, before its first line is read. The run ends
  normally and the file, source and transformed file at once, is empty.
\<close>

theorem transform_in_place_empties_file:
  "readlines (read_text ex_fs ''/w'' ''/a/x'') = [''config A'' @ [LF], ex_line]
   \<and> is_directive ex_line
   \<and> \<not> is_directive (''config A'' @ [LF])
   \<and> isfile ex_fs ''/w'' (join (dirname ''/a/x'') ''b/y'')
   \<and> commonpath [''/a/x'', ''/a/b/z''] = Inr ''/a''
   \<and> relpath ''/w'' ''/a/x'' ''/a'' = Inr ''x''
   \<and> join (dirname ''/a/root.kconfig'') ''x'' = ''/a/x''
   \<and> (case main 2 ex_fs ''/w'' ''Demo'' ''/a/root.kconfig'' [''/a/x'', ''/a/b/z''] of
         None \<Rightarrow> False | Some (Inl e, f') \<Rightarrow> False
       | Some (Inr msgs, f') \<Rightarrow> f' (path_key ''/w'' ''/a/x'') = Some (File []))"
proof -
  have 1: "readlines (read_text ex_fs ''/w'' ''/a/x'') = [''config A'' @ [LF], ex_line]"
    by code_simp
  have 2: "is_directive ex_line" by code_simp
  have 3: "\<not> is_directive (''config A'' @ [LF])" by code_simp
  have 4: "isfile ex_fs ''/w'' (join (dirname ''/a/x'') ''b/y'')" by code_simp
  have 5: "commonpath [''/a/x'', ''/a/b/z''] = Inr ''/a''" by code_simp
  have 6: "relpath ''/w'' ''/a/x'' ''/a'' = Inr ''x''" by code_simp
  have 7: "join (dirname ''/a/root.kconfig'') ''x'' = ''/a/x''" by code_simp
  have 8: "case main 2 ex_fs ''/w'' ''Demo'' ''/a/root.kconfig'' [''/a/x'', ''/a/b/z''] of
         None \<Rightarrow> False | Some (Inl e, f') \<Rightarrow> False
       | Some (Inr msgs, f') \<Rightarrow> f' (path_key ''/w'' ''/a/x'') = Some (File [])"
    by code_simp
  from 1 2 3 4 5 6 7 8 show ?thesis by blast
qed

subsection \<open>The root file\<close>

lemma import_loop_frame:
  "import_loop n st srcs out = Some (r, out', st') \<Longrightarrow> fs st k = Some (File c) \<Longrightarrow>
     k \<notin> record_keys (cwd st) (drop (length (kconfig_sources st)) (kconfig_sources st')) \<Longrightarrow>
     fs st' k = Some (File c)"
proof (induction srcs arbitrary: st out)
  case Nil
  then show ?case by simp
next
  case (Cons s srcs)
  from Cons.prems(1) show ?case
  proof (cases rule: import_loop_Cons_cases)
    case (failed e)
    with parse_kconfig_frame Cons.prems(2,3) show ?thesis by blast
  next
    case (continued rel st1)
    from parse_kconfig_records [OF continued(1)] obtain new1 where
      1: "kconfig_sources st1 = kconfig_sources st @ new1" by auto
    from import_loop_records [OF continued(2)] obtain new2 where
      2: "kconfig_sources st' = kconfig_sources st1 @ new2" by auto
    have c1: "cwd st1 = cwd st"
      using parse_kconfig_same_object [OF continued(1)] by (simp add: same_object_def)
    from Cons.prems(3) 1 2 have n1: "k \<notin> record_keys (cwd st) new1"
      and n2: "k \<notin> record_keys (cwd st) new2"
      by auto
    from parse_kconfig_frame [OF continued(1) Cons.prems(2)] n1 1
    have "fs st1 k = Some (File c)" by simp
    from Cons.IH [OF continued(2) this] n2 2 c1 show ?thesis by simp
  qed
qed

lemma import_loop_output:
  "import_loop n st srcs out = Some (Inr u, out', st') \<Longrightarrow>
     \<exists>rels. out' = out @ concat (map source_line rels)
       \<and> list_all2 (\<lambda>s rel. relpath (cwd st) s (common_dir st) = Inr rel) srcs rels"
proof (induction srcs arbitrary: st out)
  case Nil
  then show ?case by simp
next
  case (Cons s srcs)
  from Cons.prems show ?case
  proof (cases rule: import_loop_Cons_cases)
    case (failed e)
    then show ?thesis by simp
  next
    case (continued rel st1)
    have so: "cwd st1 = cwd st" "common_dir st1 = common_dir st"
      using parse_kconfig_same_object [OF continued(1)] by (simp_all add: same_object_def)
    from Cons.IH [OF continued(2)] so obtain rels where
      "out' = (out @ source_line rel) @ concat (map source_line rels)"
      "list_all2 (\<lambda>s rel. relpath (cwd st) s (common_dir st) = Inr rel) srcs rels"
      by auto
    moreover have "relpath (cwd st) s (common_dir st) = Inr rel"
      using parse_kconfig_rel [OF continued(1)] by (simp add: get_source_relpath_def)
    ultimately show ?thesis
      by (intro exI [of _ "rel # rels"]) simp
  qed
qed

text \<open>
  What a run that returns normally has written to the root file: the banner line, the
  \<^verbatim>\<open>mainmenu\<close> line with the title, and one \<^verbatim>\<open>source\<close> line for each input, in the order
  of the inputs, each naming the input relative to the common directory. The root file
  holds nothing else when no record of the run names the place of the root file.
\<close>

lemma root_file_contents:
  assumes "import_sources n st srcs = Some (Inr u, st')"
    and "headers st = [''# AUTOGENERATED FILE. DO NOT MODIFY'']"
  shows "\<exists>cd rels tail.
           commonpath srcs = Inr cd
         \<and> list_all2 (\<lambda>s rel. relpath (cwd st) s cd = Inr rel) srcs rels
         \<and> read_text (fs st') (cwd st) (kconfig_root st) =
             ''# AUTOGENERATED FILE. DO NOT MODIFY'' @ [LF]
             @ ''mainmenu '' @ [DQ] @ title st @ '' Configuration'' @ [DQ, LF]
             @ concat (map (\<lambda>rel. ''source '' @ [DQ] @ rel @ [DQ, LF]) rels) @ tail
         \<and> (path_key (cwd st) (kconfig_root st)
               \<notin> record_keys (cwd st) (drop (length (kconfig_sources st)) (kconfig_sources st'))
             \<longrightarrow> tail = [])"
  using assms(1)
proof (cases rule: import_sources_cases)
  case (run cd f2 out st3)
  let ?wd = "cwd st"
  let ?kr = "path_key ?wd (kconfig_root st)"
  let ?st1 = "st\<lparr>common_dir := cd, fs := f2\<rparr>"
  have so: "cwd st3 = ?wd" "kconfig_root st3 = kconfig_root st"
    using import_loop_same_object [OF run(3)] by (simp_all add: same_object_def)
  from import_loop_output [OF run(3)] obtain rels where
    out: "out = root_header st @ concat (map source_line rels)"
    and rels: "list_all2 (\<lambda>s rel. relpath ?wd s cd = Inr rel) srcs rels"
    by auto
  define tail where "tail = drop (length out) (read_text (fs st3) ?wd (kconfig_root st))"
  have sl: "source_line = (\<lambda>rel. ''source '' @ [DQ] @ rel @ [DQ, LF])"
    by (rule ext) (simp add: source_line_def)
  have content: "read_text (fs st') ?wd (kconfig_root st) =
             ''# AUTOGENERATED FILE. DO NOT MODIFY'' @ [LF]
             @ ''mainmenu '' @ [DQ] @ title st @ '' Configuration'' @ [DQ, LF]
             @ concat (map (\<lambda>rel. ''source '' @ [DQ] @ rel @ [DQ, LF]) rels) @ tail"
    using run(4) so out assms(2) unfolding sl [symmetric]
    by (simp add: read_text_close_w tail_def root_header_def)
  have empty: "tail = []"
    if nk: "?kr \<notin> record_keys ?wd (drop (length (kconfig_sources st)) (kconfig_sources st'))"
  proof -
    have "fs ?st1 ?kr = Some (File [])" using open_w_fs [OF run(2)] by simp
    moreover have "?kr \<notin> record_keys (cwd ?st1)
        (drop (length (kconfig_sources ?st1)) (kconfig_sources st3))"
      using nk run(4) by simp
    ultimately have "fs st3 ?kr = Some (File [])"
      using import_loop_frame [OF run(3)] by blast
    then show ?thesis by (simp add: tail_def read_text_def)
  qed
  show ?thesis
    by (rule exI [of _ cd], rule exI [of _ rels], rule exI [of _ tail])
       (use run(1) rels content empty in blast)
qed simp_all

lemma root_file_contents_example:
  "\<exists>st'. import_sources 2 ex_state [''/a/x'', ''/a/b/z''] = Some (Inr (), st')
     \<and> headers ex_state = [''# AUTOGENERATED FILE. DO NOT MODIFY'']
     \<and> read_text (fs st') ''/w'' ''/out/Kconfig'' =
           ''# AUTOGENERATED FILE. DO NOT MODIFY'' @ [LF]
           @ ''mainmenu '' @ [DQ] @ ''Demo Configuration'' @ [DQ, LF]
           @ ''source '' @ [DQ] @ ''x'' @ [DQ, LF]
           @ ''source '' @ [DQ] @ ''b/z'' @ [DQ, LF]
     \<and> (\<exists>cd rels tail.
           commonpath [''/a/x'', ''/a/b/z''] = Inr cd
         \<and> list_all2 (\<lambda>s rel. relpath (cwd ex_state) s cd = Inr rel) [''/a/x'', ''/a/b/z''] rels
         \<and> read_text (fs st') (cwd ex_state) (kconfig_root ex_state) =
             ''# AUTOGENERATED FILE. DO NOT MODIFY'' @ [LF]
             @ ''mainmenu '' @ [DQ] @ title ex_state @ '' Configuration'' @ [DQ, LF]
             @ concat (map (\<lambda>rel. ''source '' @ [DQ] @ rel @ [DQ, LF]) rels) @ tail
         \<and> (path_key (cwd ex_state) (kconfig_root ex_state)
               \<notin> record_keys (cwd ex_state)
                    (drop (length (kconfig_sources ex_state)) (kconfig_sources st'))
             \<longrightarrow> tail = []))"
proof -
  have "case import_sources 2 ex_state [''/a/x'', ''/a/b/z''] of
          None \<Rightarrow> False | Some (Inl e, st') \<Rightarrow> False
        | Some (Inr u, st') \<Rightarrow>
            read_text (fs st') ''/w'' ''/out/Kconfig'' =
              ''# AUTOGENERATED FILE. DO NOT MODIFY'' @ [LF]
              @ ''mainmenu '' @ [DQ] @ ''Demo Configuration'' @ [DQ, LF]
              @ ''source '' @ [DQ] @ ''x'' @ [DQ, LF]
              @ ''source '' @ [DQ] @ ''b/z'' @ [DQ, LF]"
    by code_simp
  then obtain u st' where "import_sources 2 ex_state [''/a/x'', ''/a/b/z''] = Some (Inr u, st')"
    and t: "read_text (fs st') ''/w'' ''/out/Kconfig'' =
              ''# AUTOGENERATED FILE. DO NOT MODIFY'' @ [LF]
              @ ''mainmenu '' @ [DQ] @ ''Demo Configuration'' @ [DQ, LF]
              @ ''source '' @ [DQ] @ ''x'' @ [DQ, LF]
              @ ''source '' @ [DQ] @ ''b/z'' @ [DQ, LF]"
    by (rule success_caseE)
  then have i: "import_sources 2 ex_state [''/a/x'', ''/a/b/z''] = Some (Inr (), st')"
    by simp
  have h: "headers ex_state = [''# AUTOGENERATED FILE. DO NOT MODIFY'']"
    by (simp add: ex_state_def)
  from i h t root_file_contents [OF i h] show ?thesis by blast
qed

text \<open>
  C1. The root file should consist of the banner line, the \<^verbatim>\<open>mainmenu\<close> line and one
  \<^verbatim>\<open>source\<close> line for each input. Two runs on existing files where it does not. With the
  inputs \<^verbatim>\<open>/a/Kconfig\<close> and \<^verbatim>\<open>/a/b/z\<close> and the root file \<^verbatim>\<open>/out/Kconfig\<close> the
  destination of the first input is the root file itself, which line 61 opens again for
  writing while line 81 holds it open: the run ends normally, the copy of the input is
  lost, and the root file keeps the end of that copy after its two \<^verbatim>\<open>source\<close> lines.
  With the single input \<^verbatim>\<open>/a/x\<close> the common directory is the file itself, the
  destination is the output directory, the run ends with an exception and the root file
  has no \<^verbatim>\<open>source\<close> line.
\<close>

theorem root_file_not_as_claimed:
  "(case main 2 ex_fs ''/w'' ''Demo'' ''/out/Kconfig'' [''/a/x''] of
      None \<Rightarrow> False
    | Some (Inr msgs, f') \<Rightarrow> False
    | Some (Inl e, f') \<Rightarrow>
        isfile ex_fs ''/w'' ''/a/x''
        \<and> e = IsADirectoryError ''/out/.''
        \<and> read_text f' ''/w'' ''/out/Kconfig'' =
              ''# AUTOGENERATED FILE. DO NOT MODIFY'' @ [LF]
              @ ''mainmenu '' @ [DQ] @ ''Demo Configuration'' @ [DQ, LF])
   \<and> (case main 2 ex_fs ''/w'' ''Demo'' ''/out/Kconfig'' [''/a/Kconfig'', ''/a/b/z''] of
      None \<Rightarrow> False
    | Some (Inl e, f') \<Rightarrow> False
    | Some (Inr msgs, f') \<Rightarrow>
        read_text f' ''/w'' ''/out/Kconfig'' =
              ''# AUTOGENERATED FILE. DO NOT MODIFY'' @ [LF]
              @ ''mainmenu '' @ [DQ] @ ''Demo Configuration'' @ [DQ, LF]
              @ ''source '' @ [DQ] @ ''Kconfig'' @ [DQ, LF]
              @ ''source '' @ [DQ] @ ''b/z'' @ [DQ, LF]
              @ ''THIRD_OPTION_OF_THE_PROJECT'' @ [LF] @ ''    bool'' @ [LF])"
proof -
  have 1: "case main 2 ex_fs ''/w'' ''Demo'' ''/out/Kconfig'' [''/a/x''] of
      None \<Rightarrow> False
    | Some (Inr msgs, f') \<Rightarrow> False
    | Some (Inl e, f') \<Rightarrow>
        isfile ex_fs ''/w'' ''/a/x''
        \<and> e = IsADirectoryError ''/out/.''
        \<and> read_text f' ''/w'' ''/out/Kconfig'' =
              ''# AUTOGENERATED FILE. DO NOT MODIFY'' @ [LF]
              @ ''mainmenu '' @ [DQ] @ ''Demo Configuration'' @ [DQ, LF]"
    by code_simp
  have 2: "case main 2 ex_fs ''/w'' ''Demo'' ''/out/Kconfig'' [''/a/Kconfig'', ''/a/b/z''] of
      None \<Rightarrow> False
    | Some (Inl e, f') \<Rightarrow> False
    | Some (Inr msgs, f') \<Rightarrow>
        read_text f' ''/w'' ''/out/Kconfig'' =
              ''# AUTOGENERATED FILE. DO NOT MODIFY'' @ [LF]
              @ ''mainmenu '' @ [DQ] @ ''Demo Configuration'' @ [DQ, LF]
              @ ''source '' @ [DQ] @ ''Kconfig'' @ [DQ, LF]
              @ ''source '' @ [DQ] @ ''b/z'' @ [DQ, LF]
              @ ''THIRD_OPTION_OF_THE_PROJECT'' @ [LF] @ ''    bool'' @ [LF]"
    by code_simp
  from 1 2 show ?thesis by (rule conjI)
qed

subsection \<open>Importing a generated root file again\<close>

text \<open>
  C6. A first run on \<^verbatim>\<open>/a/x\<close> and \<^verbatim>\<open>/a/b/z\<close> writes \<^verbatim>\<open>/out/Kconfig\<close>. A second run with
  that file as its only input, writing to \<^verbatim>\<open>/again/Kconfig\<close>, does not produce a tree: the
  common directory of the single input is the input itself, its destination is the
  directory \<^verbatim>\<open>/again\<close>, and the run ends with an exception.
\<close>

theorem reimport_of_root_file_fails:
  "(case main 3 ex_fs ''/w'' ''Demo'' ''/out/Kconfig'' [''/a/x'', ''/a/b/z''] of
      None \<Rightarrow> False
    | Some (Inl e, f1) \<Rightarrow> False
    | Some (Inr msgs, f1) \<Rightarrow>
        isfile f1 ''/w'' ''/out/Kconfig''
        \<and> (case main 3 f1 ''/w'' ''Demo'' ''/again/Kconfig'' [''/out/Kconfig''] of
              None \<Rightarrow> False
            | Some (Inr msgs', f2) \<Rightarrow> False
            | Some (Inl e, f2) \<Rightarrow>
                e = IsADirectoryError ''/again/.''
                \<and> f2 (path_key ''/w'' ''/again/x'') = None
                \<and> f2 (path_key ''/w'' ''/again/out/Kconfig'') = None))"
  by code_simp

subsection \<open>Termination\<close>

lemma references_mem:
  assumes "l \<in> set (readlines (read_text f wd p))" and "match_source l = Some g" and "g \<noteq> []"
  shows "join (dirname p) g \<in> set (references wd f p)"
  using assms unfolding references_def by (auto intro!: bexI [of _ l])

lemma sources_intact_read:
  assumes "sources_intact wd f0 R f" and "p \<in> R" and "f (path_key wd p) = Some (File c)"
  shows "read_text f wd p = read_text f0 wd p"
proof -
  from assms have "f0 (path_key wd p) = Some (File c)" by (simp add: sources_intact_def)
  with assms(3) show ?thesis by (simp add: read_text_def)
qed

lemma sources_intact_makedirs:
  assumes "sources_intact wd f0 R f" and "makedirs f wd' name = Inr f'"
  shows "sources_intact wd f0 R f'"
  using assms(1) makedirs_file [OF assms(2)] by (simp add: sources_intact_def)

lemma sources_intact_upd:
  assumes "sources_intact wd f0 R f" and "\<forall>q \<in> R. path_key wd q \<noteq> k"
  shows "sources_intact wd f0 R (f(k \<mapsto> v))"
  using assms by (simp add: sources_intact_def)

text \<open>
  The loop over the lines returns when every call it makes returns; \<open>G\<close> is the
  property of the state that the calls need and keep.
\<close>

lemma parse_lines_returns:
  assumes calls: "\<And>l g st. l \<in> set ls \<Longrightarrow> match_source l = Some g \<Longrightarrow> g \<noteq> [] \<Longrightarrow> G st \<Longrightarrow>
      \<exists>r st'. parse_kconfig m st (join dir g) = Some (r, st') \<and> (returned r \<longrightarrow> G st')"
    and "G st"
  shows "\<exists>r out' st'. parse_lines m st dir ls out = Some (r, out', st') \<and> (returned r \<longrightarrow> G st')"
  using assms
proof (induction ls arbitrary: st out)
  case Nil
  then show ?case by simp
next
  case (Cons l ls)
  have IH: "\<exists>r out' st'. parse_lines m s dir ls acc = Some (r, out', st') \<and> (returned r \<longrightarrow> G st')"
    if "G s" for s acc
  proof (rule Cons.IH [OF _ that])
    fix l' g st
    assume "l' \<in> set ls" "match_source l' = Some g" "g \<noteq> []" "G st"
    then show "\<exists>r st'. parse_kconfig m st (join dir g) = Some (r, st') \<and> (returned r \<longrightarrow> G st')"
      using Cons.prems(1) [of l' g st] by simp
  qed
  show ?case
  proof (cases "match_source l")
    case None
    with IH [OF Cons.prems(2)] show ?thesis by simp
  next
    case (Some g)
    show ?thesis
    proof (cases "g = []")
      case True
      with Some IH [OF Cons.prems(2)] show ?thesis by simp
    next
      case False
      from Cons.prems(1) [of l g st] Some False Cons.prems(2)
      obtain r st1 where k: "parse_kconfig m st (join dir g) = Some (r, st1)"
        and g1: "returned r \<longrightarrow> G st1"
        by auto
      show ?thesis
      proof (cases r)
        case (Inl e)
        with Some False k show ?thesis by (simp add: returned_def)
      next
        case (Inr rel)
        with g1 have "G st1" by (simp add: returned_def)
        from IH [OF this, of "out @ source_line rel"] Some False k Inr show ?thesis by simp
      qed
    qed
  qed
qed


lemma uniform_bound:
  assumes "\<forall>x \<in> set xs. \<exists>N. \<forall>n\<ge>N. P x (n::nat)"
  shows "\<exists>M. \<forall>x \<in> set xs. \<forall>n\<ge>M. P x n"
  using assms
proof (induction xs)
  case Nil
  then show ?case by simp
next
  case (Cons x xs)
  then obtain M where M: "\<forall>y \<in> set xs. \<forall>n\<ge>M. P y n" by auto
  from Cons.prems obtain N where N: "\<forall>n\<ge>N. P x n" by auto
  show ?case
  proof (intro exI [of _ "max M N"] ballI allI impI)
    fix y n
    assume "y \<in> set (x # xs)" "max M N \<le> n"
    with M N show "P y n" by auto
  qed
qed

text \<open>
  One call returns once the bound allows one level more than the calls for the
  directives of the file need.
\<close>

lemma parse_kconfig_step_returns:
  assumes so: "same_object st0 st" and intact: "sources_intact (cwd st0) f0 R (fs st)"
    and p: "p \<in> R"
    and sep: "\<forall>q \<in> R. \<forall>rel. relpath (cwd st0) p (common_dir st0) = Inr rel \<longrightarrow>
                path_key (cwd st0) q \<noteq> path_key (cwd st0) (join (parent_dir st0) rel)"
    and calls: "\<And>q s. q \<in> set (references (cwd st0) f0 p) \<Longrightarrow>
        same_object st0 s \<and> sources_intact (cwd st0) f0 R (fs s) \<Longrightarrow>
        \<exists>r s'. parse_kconfig m s q = Some (r, s')
          \<and> (returned r \<longrightarrow> same_object st0 s' \<and> sources_intact (cwd st0) f0 R (fs s'))"
  shows "\<exists>r st'. parse_kconfig (Suc m) st p = Some (r, st')
          \<and> (returned r \<longrightarrow> same_object st0 st' \<and> sources_intact (cwd st0) f0 R (fs st'))"
proof -
  let ?wd = "cwd st0"
  let ?G = "\<lambda>s. same_object st0 s \<and> sources_intact ?wd f0 R (fs s)"
  from so have eq: "cwd st = ?wd" "common_dir st = common_dir st0" "parent_dir st = parent_dir st0"
    by (simp_all add: same_object_def)
  show ?thesis
  proof (cases "relpath ?wd p (common_dir st0)")
    case (Inl e)
    then show ?thesis
      by (simp add: get_source_relpath_def eq returned_def)
  next
    case (Inr rel)
    let ?dest = "join (parent_dir st0) rel"
    let ?kd = "path_key ?wd ?dest"
    from sep Inr have kd: "\<forall>q \<in> R. path_key ?wd q \<noteq> ?kd" by blast
    show ?thesis
    proof (cases "makedirs (fs st) ?wd (dirname ?dest)")
      case (Inl e)
      with Inr show ?thesis
        by (simp add: get_source_relpath_def get_parent_relpath_def eq returned_def)
    next
      case f1: (Inr f1)
      have i1: "sources_intact ?wd f0 R f1"
        using intact f1 by (rule sources_intact_makedirs)
      show ?thesis
      proof (cases "open_r f1 ?wd p")
        case (Inl e)
        with Inr f1 show ?thesis
          by (simp add: get_source_relpath_def get_parent_relpath_def eq returned_def)
      next
        case opr: (Inr u)
        show ?thesis
        proof (cases "open_w f1 ?wd ?dest")
          case (Inl e)
          with Inr f1 opr show ?thesis
            by (simp add: get_source_relpath_def get_parent_relpath_def eq returned_def)
        next
          case opw: (Inr f3)
          let ?st2 = "st\<lparr>invocations := Suc (invocations st),
               kconfig_sources := kconfig_sources st @ [{p, ?dest}], fs := f3\<rparr>"
          have f3: "f3 = f1(?kd \<mapsto> File [])" using open_w_fs [OF opw] .
          have i3: "sources_intact ?wd f0 R f3"
            unfolding f3 using i1 kd by (rule sources_intact_upd)
          have G2: "?G ?st2" using so i3 by simp
          from open_r_file [OF opr] obtain c where "f1 (path_key ?wd p) = Some (File c)" by blast
          with kd p have "f3 (path_key ?wd p) = Some (File c)" by (simp add: f3)
          with i3 p have rd: "read_text f3 ?wd p = read_text f0 ?wd p"
            by (rule sources_intact_read)
          have "\<exists>r out' st'. parse_lines m ?st2 (dirname p) (readlines (read_text f3 ?wd p)) []
                  = Some (r, out', st') \<and> (returned r \<longrightarrow> ?G st')"
          proof (rule parse_lines_returns [where G = ?G, OF _ G2])
            fix l g s
            assume l: "l \<in> set (readlines (read_text f3 ?wd p))" "match_source l = Some g" "g \<noteq> []"
              and Gs: "?G s"
            from l(1) [unfolded rd] l(2,3) have "join (dirname p) g \<in> set (references ?wd f0 p)"
              by (rule references_mem)
            from calls [OF this Gs]
            show "\<exists>r st'. parse_kconfig m s (join (dirname p) g) = Some (r, st')
                    \<and> (returned r \<longrightarrow> ?G st')" .
          qed
          then obtain r' out st4 where
            pl: "parse_lines m ?st2 (dirname p) (readlines (read_text f3 ?wd p)) [] = Some (r', out, st4)"
            and G4: "returned r' \<longrightarrow> ?G st4"
            by blast
          let ?st' = "st4\<lparr>fs := close_w (fs st4) (cwd st4) ?dest out\<rparr>"
          have res: "parse_kconfig (Suc m) st p = Some (map_sum id (\<lambda>_. rel) r', ?st')"
            using Inr f1 opr opw pl
            by (simp add: get_source_relpath_def get_parent_relpath_def eq)
          have "?G ?st'" if "returned r'"
          proof -
            from that G4 have g: "?G st4" by simp
            then have c4: "cwd st4 = ?wd" by (simp add: same_object_def)
            have "sources_intact ?wd f0 R (close_w (fs st4) ?wd ?dest out)"
              unfolding close_w_def Let_def using g kd by (intro sources_intact_upd) simp_all
            with g c4 show ?thesis by simp
          qed
          moreover have "returned (map_sum id (\<lambda>_. rel) r') = returned r'"
            by (cases r') (simp_all add: returned_def)
          ultimately show ?thesis using res by simp
        qed
      qed
    qed
  qed
qed


lemma parse_kconfig_returns:
  assumes wf: "wf (reference_graph (cwd st0) f0 R)"
    and closed: "\<forall>p \<in> R. set (references (cwd st0) f0 p) \<subseteq> R"
    and sep: "\<forall>p \<in> R. \<forall>q \<in> R. \<forall>rel. relpath (cwd st0) p (common_dir st0) = Inr rel \<longrightarrow>
                path_key (cwd st0) q \<noteq> path_key (cwd st0) (join (parent_dir st0) rel)"
  shows "p \<in> R \<longrightarrow>
     (\<exists>N. \<forall>n\<ge>N. \<forall>st. same_object st0 st \<and> sources_intact (cwd st0) f0 R (fs st) \<longrightarrow>
        (\<exists>r st'. parse_kconfig n st p = Some (r, st')
           \<and> (returned r \<longrightarrow> same_object st0 st' \<and> sources_intact (cwd st0) f0 R (fs st'))))"
  using wf
proof (induction p rule: wf_induct_rule)
  case (less p)
  let ?wd = "cwd st0"
  let ?G = "\<lambda>s. same_object st0 s \<and> sources_intact ?wd f0 R (fs s)"
  let ?ok = "\<lambda>q n. \<forall>st. ?G st \<longrightarrow>
        (\<exists>r st'. parse_kconfig n st q = Some (r, st') \<and> (returned r \<longrightarrow> ?G st'))"
  show ?case
  proof
    assume p: "p \<in> R"
    have "\<forall>q \<in> set (references ?wd f0 p). \<exists>N. \<forall>n\<ge>N. ?ok q n"
    proof
      fix q
      assume q: "q \<in> set (references ?wd f0 p)"
      with p have "(q, p) \<in> reference_graph ?wd f0 R" by (simp add: reference_graph_def)
      moreover from q p closed have "q \<in> R" by blast
      ultimately show "\<exists>N. \<forall>n\<ge>N. ?ok q n" using less by blast
    qed
    then obtain M where M: "\<forall>q \<in> set (references ?wd f0 p). \<forall>n\<ge>M. ?ok q n"
      using uniform_bound [of "references ?wd f0 p" ?ok] by blast
    have "?ok p n" if n: "Suc M \<le> n" for n
    proof (intro allI impI)
      fix st
      assume G: "?G st"
      from n obtain m where m: "n = Suc m" "M \<le> m" by (cases n) auto
      have "\<exists>r st'. parse_kconfig (Suc m) st p = Some (r, st') \<and> (returned r \<longrightarrow> ?G st')"
      proof (rule parse_kconfig_step_returns [where R = R and ?f0.0 = f0])
        show "same_object st0 st" using G by simp
        show "sources_intact ?wd f0 R (fs st)" using G by simp
        show "p \<in> R" by (rule p)
        show "\<forall>q \<in> R. \<forall>rel. relpath ?wd p (common_dir st0) = Inr rel \<longrightarrow>
                path_key ?wd q \<noteq> path_key ?wd (join (parent_dir st0) rel)"
          using sep p by blast
      next
        fix q s
        assume "q \<in> set (references ?wd f0 p)" and "?G s"
        with M m(2) show "\<exists>r s'. parse_kconfig m s q = Some (r, s') \<and> (returned r \<longrightarrow> ?G s')"
          by blast
      qed
      with m(1) show "\<exists>r st'. parse_kconfig n st p = Some (r, st') \<and> (returned r \<longrightarrow> ?G st')"
        by simp
    qed
    then show "\<exists>N. \<forall>n\<ge>N. ?ok p n" by blast
  qed
qed

lemma import_loop_returns:
  assumes calls: "\<And>s st. s \<in> set srcs \<Longrightarrow> G st \<Longrightarrow>
      \<exists>r st'. parse_kconfig n st s = Some (r, st') \<and> (returned r \<longrightarrow> G st')"
    and "G st"
  shows "\<exists>r out' st'. import_loop n st srcs out = Some (r, out', st')"
  using assms
proof (induction srcs arbitrary: st out)
  case Nil
  then show ?case by simp
next
  case (Cons s srcs)
  from Cons.prems(1) [of s st] Cons.prems(2)
  obtain r st1 where k: "parse_kconfig n st s = Some (r, st1)" and g1: "returned r \<longrightarrow> G st1"
    by auto
  show ?case
  proof (cases r)
    case (Inl e)
    with k show ?thesis by simp
  next
    case (Inr rel)
    with g1 have G1: "G st1" by (simp add: returned_def)
    have "\<exists>r out' st'. import_loop n st1 srcs (out @ source_line rel) = Some (r, out', st')"
    proof (rule Cons.IH [OF _ G1])
      fix s' st
      assume "s' \<in> set srcs" "G st"
      then show "\<exists>r st'. parse_kconfig n st s' = Some (r, st') \<and> (returned r \<longrightarrow> G st')"
        using Cons.prems(1) [of s' st] by simp
    qed
    with k Inr show ?thesis by simp
  qed
qed

lemma sources_intact_refl: "sources_intact wd f R f"
  by (simp add: sources_intact_def)

text \<open>
  \<open>R\<close> is a set of paths that holds the inputs and every path that a directive of one of
  its files refers to. When the reference graph on \<open>R\<close> is finite and acyclic, and no path
  of \<open>R\<close> names the place of the root file or of the destination of a path of \<open>R\<close>, then
  \<open>import_sources\<close> returns, normally or with an exception, for every bound on the depth
  of the recursion from some bound on.
\<close>

lemma import_terminates:
  assumes "finite (reference_graph (cwd st) (fs st) R)"
    and "acyclic (reference_graph (cwd st) (fs st) R)"
    and "set srcs \<subseteq> R"
    and "\<forall>p \<in> R. set (references (cwd st) (fs st) p) \<subseteq> R"
    and "\<forall>p \<in> R. \<forall>q \<in> R. \<forall>cd rel.
           commonpath srcs = Inr cd \<longrightarrow> relpath (cwd st) p cd = Inr rel \<longrightarrow>
           path_key (cwd st) q \<noteq> path_key (cwd st) (join (parent_dir st) rel)"
    and "\<forall>q \<in> R. path_key (cwd st) q \<noteq> path_key (cwd st) (kconfig_root st)"
  shows "\<exists>N. \<forall>n\<ge>N. \<exists>r st'. import_sources n st srcs = Some (r, st')"
proof (cases "commonpath srcs")
  case (Inl e)
  then show ?thesis by (simp add: import_sources_def)
next
  case (Inr cd)
  let ?wd = "cwd st"
  let ?st0 = "st\<lparr>common_dir := cd\<rparr>"
  let ?G = "\<lambda>s. same_object ?st0 s \<and> sources_intact ?wd (fs st) R (fs s)"
  let ?ok = "\<lambda>q n. \<forall>s. ?G s \<longrightarrow>
        (\<exists>r s'. parse_kconfig n s q = Some (r, s') \<and> (returned r \<longrightarrow> ?G s'))"
  have wf: "wf (reference_graph (cwd ?st0) (fs st) R)"
    using assms(1,2) by (simp add: finite_acyclic_wf)
  have closed: "\<forall>p \<in> R. set (references (cwd ?st0) (fs st) p) \<subseteq> R"
    using assms(4) by simp
  have sep: "\<forall>p \<in> R. \<forall>q \<in> R. \<forall>rel. relpath (cwd ?st0) p (common_dir ?st0) = Inr rel \<longrightarrow>
                path_key (cwd ?st0) q \<noteq> path_key (cwd ?st0) (join (parent_dir ?st0) rel)"
    using assms(5) Inr by simp
  have "\<forall>s \<in> set srcs. \<exists>N. \<forall>n\<ge>N. ?ok s n"
  proof
    fix s
    assume "s \<in> set srcs"
    with assms(3) have "s \<in> R" by blast
    with parse_kconfig_returns [OF wf closed sep, of s] show "\<exists>N. \<forall>n\<ge>N. ?ok s n"
      by simp
  qed
  then obtain M where M: "\<forall>s \<in> set srcs. \<forall>n\<ge>M. ?ok s n"
    using uniform_bound [of srcs ?ok] by blast
  have "\<exists>r st'. import_sources n st srcs = Some (r, st')" if n: "M \<le> n" for n
  proof (cases "open_w (fs st) ?wd (kconfig_root st)")
    case (Inl e)
    with Inr show ?thesis by (simp add: import_sources_def)
  next
    case opw: (Inr f2)
    have "sources_intact ?wd (fs st) R f2"
      unfolding open_w_fs [OF opw] using sources_intact_refl assms(6)
      by (rule sources_intact_upd)
    then have G2: "?G (?st0\<lparr>fs := f2\<rparr>)" by simp
    have "\<exists>r out' st'. import_loop n (?st0\<lparr>fs := f2\<rparr>) srcs (root_header ?st0) = Some (r, out', st')"
    proof (rule import_loop_returns [where G = ?G, OF _ G2])
      fix s s'
      assume "s \<in> set srcs" "?G s'"
      with M n show "\<exists>r st'. parse_kconfig n s' s = Some (r, st') \<and> (returned r \<longrightarrow> ?G st')"
        by blast
    qed
    with Inr opw show ?thesis by (auto simp: import_sources_def)
  qed
  then show ?thesis by blast
qed

lemma finite_reference_graph:
  assumes "finite R"
  shows "finite (reference_graph wd f R)"
proof -
  have "reference_graph wd f R \<subseteq> (\<Union>p \<in> R. set (references wd f p)) \<times> R"
    by (auto simp: reference_graph_def)
  moreover have "finite ((\<Union>p \<in> R. set (references wd f p)) \<times> R)"
    using assms by simp
  ultimately show ?thesis by (rule finite_subset)
qed

lemma import_terminates_example:
  "finite (reference_graph (cwd ex_state) (fs ex_state) {''/a/x'', ''/a/b/y'', ''/a/b/z''})
   \<and> acyclic (reference_graph (cwd ex_state) (fs ex_state) {''/a/x'', ''/a/b/y'', ''/a/b/z''})
   \<and> reference_graph (cwd ex_state) (fs ex_state) {''/a/x'', ''/a/b/y'', ''/a/b/z''}
       = {(''/a/b/y'', ''/a/x'')}
   \<and> (\<exists>N. \<forall>n\<ge>N. \<exists>r st'. import_sources n ex_state [''/a/x'', ''/a/b/z''] = Some (r, st'))"
proof -
  let ?R = "{''/a/x'', ''/a/b/y'', ''/a/b/z''}"
  have e: "cwd ex_state = ''/w''" "parent_dir ex_state = ''/out''" "kconfig_root ex_state = ''/out/Kconfig''"
    by (simp_all add: ex_state_def)
  have r1: "references ''/w'' (fs ex_state) ''/a/x'' = [''/a/b/y'']" by code_simp
  have r2: "references ''/w'' (fs ex_state) ''/a/b/y'' = []" by code_simp
  have r3: "references ''/w'' (fs ex_state) ''/a/b/z'' = []" by code_simp
  have g: "reference_graph ''/w'' (fs ex_state) ?R = {(''/a/b/y'', ''/a/x'')}"
    unfolding reference_graph_def using r1 r2 r3 by auto
  have fin: "finite (reference_graph (cwd ex_state) (fs ex_state) ?R)"
    by (rule finite_reference_graph) simp
  have acy: "acyclic (reference_graph (cwd ex_state) (fs ex_state) ?R)"
  proof -
    have "acyclic ({} :: (string \<times> string) set)" by (rule wf_acyclic) simp
    then show ?thesis unfolding e g by (simp add: acyclic_insert)
  qed
  have sub: "set [''/a/x'', ''/a/b/z''] \<subseteq> ?R" by simp
  have closed: "\<forall>p \<in> ?R. set (references (cwd ex_state) (fs ex_state) p) \<subseteq> ?R"
    unfolding e using r1 r2 r3 by simp
  have cp: "commonpath [''/a/x'', ''/a/b/z''] = Inr ''/a''" by code_simp
  have rel: "relpath ''/w'' ''/a/x'' ''/a'' = Inr ''x''"
    "relpath ''/w'' ''/a/b/y'' ''/a'' = Inr ''b/y''"
    "relpath ''/w'' ''/a/b/z'' ''/a'' = Inr ''b/z''"
    by code_simp+
  have k: "path_key ''/w'' ''/a/x'' = [''a'', ''x'']"
    "path_key ''/w'' ''/a/b/y'' = [''a'', ''b'', ''y'']"
    "path_key ''/w'' ''/a/b/z'' = [''a'', ''b'', ''z'']"
    "path_key ''/w'' (join ''/out'' ''x'') = [''out'', ''x'']"
    "path_key ''/w'' (join ''/out'' ''b/y'') = [''out'', ''b'', ''y'']"
    "path_key ''/w'' (join ''/out'' ''b/z'') = [''out'', ''b'', ''z'']"
    "path_key ''/w'' ''/out/Kconfig'' = [''out'', ''Kconfig'']"
    by code_simp+
  have sep: "\<forall>p \<in> ?R. \<forall>q \<in> ?R. \<forall>cd rel.
           commonpath [''/a/x'', ''/a/b/z''] = Inr cd \<longrightarrow> relpath (cwd ex_state) p cd = Inr rel \<longrightarrow>
           path_key (cwd ex_state) q \<noteq> path_key (cwd ex_state) (join (parent_dir ex_state) rel)"
    unfolding e cp using rel k by auto
  have root: "\<forall>q \<in> ?R. path_key (cwd ex_state) q \<noteq> path_key (cwd ex_state) (kconfig_root ex_state)"
    unfolding e using k by simp
  from import_terminates [OF fin acy sub closed sep root] fin acy g e
  show ?thesis by simp
qed

subsection \<open>A run that reads what it has written\<close>

text \<open>A call that returns within some bound returns the same within every larger bound.\<close>

lemma parse_lines_fuel_Suc:
  assumes K: "\<And>st src res. parse_kconfig n st src = Some res \<Longrightarrow>
      parse_kconfig (Suc n) st src = Some res"
  shows "parse_lines n st dir ls out = Some res \<Longrightarrow> parse_lines (Suc n) st dir ls out = Some res"
proof (induction ls arbitrary: st out)
  case Nil
  then show ?case by simp
next
  case (Cons l ls)
  obtain r out' st' where res: "res = (r, out', st')" by (cases res)
  from Cons.prems [unfolded res]
  have "parse_lines (Suc n) st dir (l # ls) out = Some (r, out', st')"
  proof (cases rule: parse_lines_Cons_cases)
    case plain
    from Cons.IH [OF plain(2) [folded res]] show ?thesis
      by (simp only: parse_lines_plain [OF plain(1)] res)
  next
    case (nested_error g e)
    from K [OF nested_error(3)] nested_error(1,2,4,5) show ?thesis
      by (simp del: parse_kconfig.simps add: res)
  next
    case (nested g rel st1)
    from K [OF nested(3)] Cons.IH [OF nested(4) [folded res]] nested(1,2) show ?thesis
      by (simp del: parse_kconfig.simps add: res)
  qed
  then show ?case by (simp only: res)
qed

lemma parse_kconfig_fuel_Suc:
  "parse_kconfig n st src = Some res \<Longrightarrow> parse_kconfig (Suc n) st src = Some res"
proof (induction n arbitrary: st src res)
  case 0
  then show ?case by simp
next
  case (Suc n)
  obtain r st' where res: "res = (r, st')" by (cases res)
  from Suc.prems [unfolded res]
  have "parse_kconfig (Suc (Suc n)) st src = Some (r, st')"
  proof (cases rule: parse_kconfig_Suc_cases)
    case (relpath_error e)
    then show ?thesis by (simp add: get_source_relpath_def Let_def)
  next
    case (makedirs_error rel e)
    then show ?thesis by (simp add: get_parent_relpath_def get_source_relpath_def Let_def)
  next
    case (open_error rel f1 e)
    then show ?thesis by (auto simp: get_parent_relpath_def get_source_relpath_def Let_def)
  next
    case (run rel f1 f3 r' out st4)
    have "parse_lines (Suc n)
         (st\<lparr>invocations := Suc (invocations st),
               kconfig_sources := kconfig_sources st @ [{src, join (parent_dir st) rel}],
               fs := f3\<rparr>)
         (dirname src) (readlines (read_text f3 (cwd st) src)) [] = Some (r', out, st4)"
    proof (rule parse_lines_fuel_Suc [OF _ run(5)])
      fix s p x
      assume "parse_kconfig n s p = Some x"
      then show "parse_kconfig (Suc n) s p = Some x" by (rule Suc.IH)
    qed
    with run(1,2,3,4,6,7) show ?thesis
      by (simp add: get_parent_relpath_def get_source_relpath_def Let_def)
  qed
  then show ?case by (simp only: res)
qed

lemma parse_kconfig_fuel_mono:
  "parse_kconfig n st src = Some res \<Longrightarrow> n \<le> m \<Longrightarrow> parse_kconfig m st src = Some res"
proof (induction m)
  case 0
  then show ?case by simp
next
  case (Suc m)
  show ?case
  proof (cases "n = Suc m")
    case True
    with Suc.prems show ?thesis by simp
  next
    case False
    with Suc.prems have "n \<le> m" by simp
    with Suc have "parse_kconfig m st src = Some res" by simp
    then show ?thesis by (rule parse_kconfig_fuel_Suc)
  qed
qed

lemma makedirs_chain:
  "makedirs f wd name = Inr f' \<Longrightarrow> k \<in> set (dir_chain (path_key wd name)) \<Longrightarrow> f' k = Some Dir"
  by (auto simp: makedirs_def Let_def split: if_splits)

lemma makedirs_other:
  "makedirs f wd name = Inr f' \<Longrightarrow> k \<notin> set (dir_chain (path_key wd name)) \<Longrightarrow> f' k = f k"
  by (auto simp: makedirs_def Let_def split: if_splits)

lemma makedirs_succeeds:
  assumes "name \<noteq> []" and "\<forall>a \<in> set (dir_chain (path_key wd name)). \<not> is_file_node (f a)"
  shows "\<exists>f'. makedirs f wd name = Inr f'"
proof -
  let ?k = "path_key wd name"
  have "\<forall>a \<in> set (dir_chain (butlast ?k)). \<not> is_file_node (f a)"
  proof
    fix a
    assume "a \<in> set (dir_chain (butlast ?k))"
    then obtain i where i: "1 \<le> i" "i \<le> length (butlast ?k)" "a = take i (butlast ?k)"
      by (auto simp: dir_chain_def)
    then have "i < length ?k" by simp
    then have "take i (butlast ?k) = take i ?k" by (simp add: take_butlast)
    with i \<open>i < length ?k\<close> have "a \<in> set (dir_chain ?k)"
      unfolding dir_chain_def set_map by (intro image_eqI [of _ _ i]) auto
    with assms(2) show "\<not> is_file_node (f a)" by blast
  qed
  moreover have "?k = [] \<or> \<not> is_file_node (f ?k)"
  proof (cases "?k = []")
    case False
    then have "Suc 0 \<le> length ?k" by (cases ?k) simp_all
    then have "?k \<in> set (dir_chain ?k)"
      by (auto simp: dir_chain_def intro!: image_eqI [of _ _ "length ?k"])
    with assms(2) show ?thesis by blast
  qed simp
  ultimately show ?thesis using assms(1) by (simp add: makedirs_def Let_def)
qed

lemma is_file_node_iff: "is_file_node x \<longleftrightarrow> (\<exists>c. x = Some (File c))"
  by (auto simp: is_file_node_def split: option.splits node.splits)

lemma cyc_paths:
  "relpath ''/w'' ''/a/o/b/x'' ''/a'' = Inr ''o/b/x''"
  "join ''/a/o'' ''o/b/x'' = ''/a/o/o/b/x''"
  "dirname ''/a/o/o/b/x'' = ''/a/o/o/b''"
  "dirname ''/a/o/b/x'' = ''/a/o/b''"
  "join ''/a/o/b'' ''x'' = ''/a/o/b/x''"
  "path_key ''/w'' ''/a/o/o/b'' = [''a'', ''o'', ''o'', ''b'']"
  "path_key ''/w'' ''/a/o/o/b/x'' = [''a'', ''o'', ''o'', ''b'', ''x'']"
  "path_key ''/w'' ''/a/o/b/x'' = [''a'', ''o'', ''b'', ''x'']"
  "dir_chain [''a'', ''o'', ''o'', ''b''] = [[''a''], [''a'', ''o''], [''a'', ''o'', ''o''], [''a'', ''o'', ''o'', ''b'']]"
  "readlines (''source '' @ [DQ] @ ''x'' @ [DQ, LF]) = [''source '' @ [DQ] @ ''x'' @ [DQ, LF]]"
  "match_source (''source '' @ [DQ] @ ''x'' @ [DQ, LF]) = Some ''x''"
  by code_simp+

text \<open>A file that refers to itself: no bound on the depth is enough.\<close>

lemma cyc_loop:
  "cyc_inv st \<Longrightarrow> parse_kconfig n st ''/a/o/b/x'' = None"
proof (induction n arbitrary: st)
  case 0
  show ?case by simp
next
  case (Suc n)
  note inv = Suc.prems [unfolded cyc_inv_def]
  from inv have par: "cwd st = ''/w''" "common_dir st = ''/a''" "parent_dir st = ''/a/o''" by simp_all
  let ?K = "[''a'', ''o'', ''o'', ''b'']"
  show ?case
  proof (rule ccontr)
    assume "parse_kconfig (Suc n) st ''/a/o/b/x'' \<noteq> None"
    then obtain r st' where "parse_kconfig (Suc n) st ''/a/o/b/x'' = Some (r, st')" by auto
    then show False
    proof (cases rule: parse_kconfig_Suc_cases)
      case (relpath_error e)
      then show ?thesis by (simp add: get_source_relpath_def par cyc_paths)
    next
      case (makedirs_error rel e)
      then have rel: "rel = ''o/b/x''" by (simp add: get_source_relpath_def par cyc_paths)
      have "\<exists>f'. makedirs (fs st) ''/w'' ''/a/o/o/b'' = Inr f'"
        using inv by (intro makedirs_succeeds) (simp_all add: cyc_paths)
      with makedirs_error(2) show ?thesis by (simp add: rel par cyc_paths)
    next
      case (open_error rel f1 e)
      then have rel: "rel = ''o/b/x''" by (simp add: get_source_relpath_def par cyc_paths)
      from open_error(2) have md: "makedirs (fs st) ''/w'' ''/a/o/o/b'' = Inr f1"
        by (simp add: rel par cyc_paths)
      have 1: "f1 [''a'', ''o'', ''b'', ''x''] = fs st [''a'', ''o'', ''b'', ''x'']"
        by (rule makedirs_other [OF md]) (simp add: cyc_paths)
      have 2: "f1 [''a'', ''o'', ''o'', ''b'', ''x''] = fs st [''a'', ''o'', ''o'', ''b'', ''x'']"
        by (rule makedirs_other [OF md]) (simp add: cyc_paths)
      have 3: "f1 ?K = Some Dir"
        by (rule makedirs_chain [OF md]) (simp add: cyc_paths)
      have "open_r f1 ''/w'' ''/a/o/b/x'' = Inr ()"
        using inv 1 by (simp add: open_r_def cyc_paths)
      moreover have "\<exists>f3. open_w f1 ''/w'' ''/a/o/o/b/x'' = Inr f3"
        using inv 2 3 by (simp add: open_w_def Let_def cyc_paths is_dir_key_def)
      ultimately show ?thesis using open_error(3) by (auto simp: rel par cyc_paths)
    next
      case (run rel f1 f3 r' out st4)
      then have rel: "rel = ''o/b/x''" by (simp add: get_source_relpath_def par cyc_paths)
      from run(2) have md: "makedirs (fs st) ''/w'' ''/a/o/o/b'' = Inr f1"
        by (simp add: rel par cyc_paths)
      have other: "f1 k = fs st k" if "k \<notin> set (dir_chain ?K)" for k
        using that by (intro makedirs_other [OF md]) (simp add: cyc_paths)
      from run(4) have f3: "f3 = f1([''a'', ''o'', ''o'', ''b'', ''x''] \<mapsto> File [])"
        using open_w_fs [of f1 "''/w''" "''/a/o/o/b/x''" f3] by (simp add: rel par cyc_paths)
      let ?st2 = "st\<lparr>invocations := Suc (invocations st),
               kconfig_sources := kconfig_sources st @ [{''/a/o/b/x'', join (parent_dir st) rel}],
               fs := f3\<rparr>"
      have nf: "\<not> is_file_node (f1 k)" if "\<not> is_file_node (fs st k)" for k
        using that makedirs_file [OF md, of k] by (auto simp: is_file_node_iff)
      have i2: "cyc_inv ?st2"
        unfolding cyc_inv_def using inv nf
        by (simp add: f3 other cyc_paths)
      have rd: "readlines (read_text f3 (cwd st) ''/a/o/b/x'') = [''source '' @ [DQ] @ ''x'' @ [DQ, LF]]"
        using inv cyc_paths(10) by (simp add: read_text_def f3 other cyc_paths par)
      from run(5) have "parse_lines n ?st2 ''/a/o/b'' [''source '' @ [DQ] @ ''x'' @ [DQ, LF]] []
          = Some (r', out, st4)"
        by (simp only: rd cyc_paths)
      then show ?thesis
      proof (cases rule: parse_lines_Cons_cases)
        case plain
        then show ?thesis using cyc_paths(11) by (simp add: is_directive_def)
      next
        case (nested_error g e)
        with cyc_paths(11) have "g = ''x''" by simp
        with nested_error(3) Suc.IH [OF i2] show ?thesis by (simp only: cyc_paths) simp
      next
        case (nested g rel' st1)
        with cyc_paths(11) have "g = ''x''" by simp
        with nested(3) Suc.IH [OF i2] show ?thesis by (simp only: cyc_paths) simp
      qed
    qed
  qed
qed

lemma cyc_paths_z:
  "relpath ''/w'' ''/a/z'' ''/a'' = Inr ''z''"
  "join ''/a/o'' ''z'' = ''/a/o/z''"
  "dirname ''/a/o/z'' = ''/a/o''"
  "dirname ''/a/z'' = ''/a''"
  "join ''/a'' ''o/b/x'' = ''/a/o/b/x''"
  "path_key ''/w'' ''/a/o'' = [''a'', ''o'']"
  "path_key ''/w'' ''/a/o/z'' = [''a'', ''o'', ''z'']"
  "path_key ''/w'' ''/a/z'' = [''a'', ''z'']"
  "dir_chain [''a'', ''o''] = [[''a''], [''a'', ''o'']]"
  "readlines (''source '' @ [DQ] @ ''o/b/x'' @ [DQ, LF]) = [''source '' @ [DQ] @ ''o/b/x'' @ [DQ, LF]]"
  "match_source (''source '' @ [DQ] @ ''o/b/x'' @ [DQ, LF]) = Some ''o/b/x''"
  by code_simp+

lemma cyc_referrer:
  assumes "cyc_inv st"
  shows "parse_kconfig n st ''/a/z'' = None"
proof (cases n)
  case 0
  then show ?thesis by simp
next
  case (Suc m)
  note inv = assms [unfolded cyc_inv_def]
  from inv have par: "cwd st = ''/w''" "common_dir st = ''/a''" "parent_dir st = ''/a/o''" by simp_all
  let ?K = "[''a'', ''o'']"
  show ?thesis
  proof (rule ccontr)
    assume "parse_kconfig n st ''/a/z'' \<noteq> None"
    then obtain r st' where "parse_kconfig (Suc m) st ''/a/z'' = Some (r, st')"
      using Suc by auto
    then show False
    proof (cases rule: parse_kconfig_Suc_cases)
      case (relpath_error e)
      then show ?thesis by (simp add: get_source_relpath_def par cyc_paths_z)
    next
      case (makedirs_error rel e)
      then have rel: "rel = ''z''" by (simp add: get_source_relpath_def par cyc_paths_z)
      have "\<exists>f'. makedirs (fs st) ''/w'' ''/a/o'' = Inr f'"
        using inv by (intro makedirs_succeeds) (simp_all add: cyc_paths_z)
      with makedirs_error(2) show ?thesis by (simp add: rel par cyc_paths_z)
    next
      case (open_error rel f1 e)
      then have rel: "rel = ''z''" by (simp add: get_source_relpath_def par cyc_paths_z)
      from open_error(2) have md: "makedirs (fs st) ''/w'' ''/a/o'' = Inr f1"
        by (simp add: rel par cyc_paths_z)
      have 1: "f1 [''a'', ''z''] = fs st [''a'', ''z'']"
        by (rule makedirs_other [OF md]) (simp add: cyc_paths_z)
      have 2: "f1 [''a'', ''o'', ''z''] = fs st [''a'', ''o'', ''z'']"
        by (rule makedirs_other [OF md]) (simp add: cyc_paths_z)
      have 3: "f1 ?K = Some Dir"
        by (rule makedirs_chain [OF md]) (simp add: cyc_paths_z)
      have "open_r f1 ''/w'' ''/a/z'' = Inr ()"
        using inv 1 by (simp add: open_r_def cyc_paths_z)
      moreover have "\<exists>f3. open_w f1 ''/w'' ''/a/o/z'' = Inr f3"
        using inv 2 3 by (simp add: open_w_def Let_def cyc_paths_z is_dir_key_def)
      ultimately show ?thesis using open_error(3) by (auto simp: rel par cyc_paths_z)
    next
      case (run rel f1 f3 r' out st4)
      then have rel: "rel = ''z''" by (simp add: get_source_relpath_def par cyc_paths_z)
      from run(2) have md: "makedirs (fs st) ''/w'' ''/a/o'' = Inr f1"
        by (simp add: rel par cyc_paths_z)
      have other: "f1 k = fs st k" if "k \<notin> set (dir_chain ?K)" for k
        using that by (intro makedirs_other [OF md]) (simp add: cyc_paths_z)
      from run(4) have f3: "f3 = f1([''a'', ''o'', ''z''] \<mapsto> File [])"
        using open_w_fs [of f1 "''/w''" "''/a/o/z''" f3] by (simp add: rel par cyc_paths_z)
      let ?st2 = "st\<lparr>invocations := Suc (invocations st),
               kconfig_sources := kconfig_sources st @ [{''/a/z'', join (parent_dir st) rel}],
               fs := f3\<rparr>"
      have nf: "\<not> is_file_node (f1 k)" if "\<not> is_file_node (fs st k)" for k
        using that makedirs_file [OF md, of k] by (auto simp: is_file_node_iff)
      have i2: "cyc_inv ?st2"
        unfolding cyc_inv_def using inv nf
        by (simp add: f3 other cyc_paths_z)
      have rd: "readlines (read_text f3 (cwd st) ''/a/z'') = [''source '' @ [DQ] @ ''o/b/x'' @ [DQ, LF]]"
        using inv cyc_paths_z(10) by (simp add: read_text_def f3 other cyc_paths_z par)
      from run(5) have "parse_lines m ?st2 ''/a'' [''source '' @ [DQ] @ ''o/b/x'' @ [DQ, LF]] []
          = Some (r', out, st4)"
        by (simp only: rd cyc_paths_z)
      then show ?thesis
      proof (cases rule: parse_lines_Cons_cases)
        case plain
        then show ?thesis using cyc_paths_z(11) by (simp add: is_directive_def)
      next
        case (nested_error g e)
        with cyc_paths_z(11) have "g = ''o/b/x''" by simp
        with nested_error(3) cyc_loop [OF i2, of m] show ?thesis by (simp only: cyc_paths_z) simp
      next
        case (nested g rel' st1)
        with cyc_paths_z(11) have "g = ''o/b/x''" by simp
        with nested(3) cyc_loop [OF i2, of m] show ?thesis by (simp only: cyc_paths_z) simp
      qed
    qed
  qed
qed

lemma cyc_first_source:
  "parse_kconfig 1 cyc_start ''/a/b/x'' = None"
  "\<exists>s. parse_kconfig 2 cyc_start ''/a/b/x'' = Some (Inr ''b/x'', s) \<and> cyc_inv s"
proof -
  have "case parse_kconfig 1 cyc_start ''/a/b/x'' of None \<Rightarrow> True | Some x \<Rightarrow> False"
    by code_simp
  then show "parse_kconfig 1 cyc_start ''/a/b/x'' = None"
    by (simp split: option.splits)
  have "case parse_kconfig 2 cyc_start ''/a/b/x'' of
          None \<Rightarrow> False | Some (Inl e, s) \<Rightarrow> False
        | Some (Inr rel, s) \<Rightarrow> rel = ''b/x'' \<and> cyc_inv s"
    by code_simp
  then obtain rel s where "parse_kconfig 2 cyc_start ''/a/b/x'' = Some (Inr rel, s)"
    and "rel = ''b/x'' \<and> cyc_inv s"
    by (rule success_caseE)
  then show "\<exists>s. parse_kconfig 2 cyc_start ''/a/b/x'' = Some (Inr ''b/x'', s) \<and> cyc_inv s"
    by blast
qed

lemma cyc_import_loop:
  "import_loop n cyc_start [''/a/b/x'', ''/a/z''] out = None"
proof (cases "2 \<le> n")
  case True
  from cyc_first_source(2) obtain s where
    s: "parse_kconfig 2 cyc_start ''/a/b/x'' = Some (Inr ''b/x'', s)" and inv: "cyc_inv s"
    by blast
  from parse_kconfig_fuel_mono [OF s True] cyc_referrer [OF inv, of n]
  show ?thesis by simp
next
  case False
  then have "n = 0 \<or> n = 1" by auto
  then show ?thesis using cyc_first_source(1) by auto
qed

lemma cyc_import_sources:
  "import_sources n cyc_state [''/a/b/x'', ''/a/z''] = None"
proof -
  have cp: "commonpath [''/a/b/x'', ''/a/z''] = Inr ''/a''" by code_simp
  have k: "path_key ''/w'' ''/a/o/Kconfig'' = [''a'', ''o'', ''Kconfig'']" by code_simp
  have "returned (open_w cyc_fs ''/w'' ''/a/o/Kconfig'')" by code_simp
  then obtain f2 where "open_w cyc_fs ''/w'' ''/a/o/Kconfig'' = Inr f2"
    by (cases "open_w cyc_fs ''/w'' ''/a/o/Kconfig''") (simp_all add: returned_def)
  with open_w_fs [OF this] k
  have ow: "open_w cyc_fs ''/w'' ''/a/o/Kconfig'' = Inr (cyc_fs([''a'', ''o'', ''Kconfig''] \<mapsto> File []))"
    by simp
  have e: "fs cyc_state = cyc_fs" "cwd cyc_state = ''/w''" "kconfig_root cyc_state = ''/a/o/Kconfig''"
    by (simp_all add: cyc_state_def)
  have st: "cyc_state\<lparr>common_dir := ''/a'', fs := cyc_fs([''a'', ''o'', ''Kconfig''] \<mapsto> File [])\<rparr>
      = cyc_start"
    by (simp add: cyc_start_def)
  show ?thesis
    by (simp del: import_loop.simps add: import_sources_def Let_def cp e ow st cyc_import_loop)
qed

lemma cyc_init:
  "init ''Demo'' ''/a/o/Kconfig'' ''always'' cyc_fs ''/w'' = Inr cyc_state"
proof -
  have d: "dirname ''/a/o/Kconfig'' = ''/a/o''" by code_simp
  have "returned (makedirs cyc_fs ''/w'' ''/a/o'')" by code_simp
  then obtain f' where md: "makedirs cyc_fs ''/w'' ''/a/o'' = Inr f'"
    by (cases "makedirs cyc_fs ''/w'' ''/a/o''") (simp_all add: returned_def)
  have "f' k = cyc_fs k" for k
  proof (cases "k \<in> set (dir_chain (path_key ''/w'' ''/a/o''))")
    case True
    then have "k = [''a''] \<or> k = [''a'', ''o'']" by (simp add: cyc_paths_z)
    then have "cyc_fs k = Some Dir" by (auto simp: cyc_fs_def)
    with makedirs_chain [OF md True] show ?thesis by simp
  next
    case False
    then show ?thesis by (rule makedirs_other [OF md])
  qed
  then have "f' = cyc_fs" by (rule ext)
  with md d show ?thesis by (simp add: init_def cyc_state_def)
qed

lemma acyclic_by_rank:
  assumes "\<And>q p. (q, p) \<in> E \<Longrightarrow> (f q :: nat) < f p"
  shows "acyclic E"
proof -
  have "E \<subseteq> measure f" using assms by auto
  then have "wf E" by (rule wf_subset [OF wf_measure])
  then show ?thesis by (rule wf_acyclic)
qed

text \<open>
  C10. The files \<^verbatim>\<open>/a/b/x\<close>, \<^verbatim>\<open>/a/x\<close>, \<^verbatim>\<open>/a/z\<close> and \<^verbatim>\<open>/a/o/b/x\<close> exist; \<^verbatim>\<open>/a/b/x\<close>
  refers to \<^verbatim>\<open>../x\<close> and \<^verbatim>\<open>/a/z\<close> to \<^verbatim>\<open>o/b/x\<close>, so the reference graph has two edges and
  no cycle. The root file is \<^verbatim>\<open>/a/o/Kconfig\<close> and the inputs are \<^verbatim>\<open>/a/b/x\<close> and \<^verbatim>\<open>/a/z\<close>.
  The copy of \<^verbatim>\<open>/a/b/x\<close> is written to \<^verbatim>\<open>/a/o/b/x\<close> with the line \<^verbatim>\<open>source "x"\<close>, which,
  read from there, names \<^verbatim>\<open>/a/o/b/x\<close> itself; the call for \<^verbatim>\<open>/a/z\<close> then reads that file,
  and the recursion reaches every bound on its depth: the run does not return.
\<close>

theorem import_does_not_return:
  "init ''Demo'' ''/a/o/Kconfig'' ''always'' cyc_fs ''/w'' = Inr cyc_state
   \<and> reference_graph ''/w'' cyc_fs {''/a/b/x'', ''/a/z'', ''/a/b/../x'', ''/a/o/b/x''}
       = {(''/a/b/../x'', ''/a/b/x''), (''/a/o/b/x'', ''/a/z'')}
   \<and> finite (reference_graph ''/w'' cyc_fs {''/a/b/x'', ''/a/z'', ''/a/b/../x'', ''/a/o/b/x''})
   \<and> acyclic (reference_graph ''/w'' cyc_fs {''/a/b/x'', ''/a/z'', ''/a/b/../x'', ''/a/o/b/x''})
   \<and> isfile cyc_fs ''/w'' ''/a/b/x'' \<and> isfile cyc_fs ''/w'' ''/a/z''
   \<and> isfile cyc_fs ''/w'' ''/a/b/../x'' \<and> isfile cyc_fs ''/w'' ''/a/o/b/x''
   \<and> (\<forall>n. import_sources n cyc_state [''/a/b/x'', ''/a/z''] = None)
   \<and> (\<forall>n. main n cyc_fs ''/w'' ''Demo'' ''/a/o/Kconfig'' [''/a/b/x'', ''/a/z''] = None)"
proof -
  let ?R = "{''/a/b/x'', ''/a/z'', ''/a/b/../x'', ''/a/o/b/x''}"
  have r: "references ''/w'' cyc_fs ''/a/b/x'' = [''/a/b/../x'']"
    "references ''/w'' cyc_fs ''/a/z'' = [''/a/o/b/x'']"
    "references ''/w'' cyc_fs ''/a/b/../x'' = []"
    "references ''/w'' cyc_fs ''/a/o/b/x'' = []"
    by code_simp+
  have g: "reference_graph ''/w'' cyc_fs ?R
       = {(''/a/b/../x'', ''/a/b/x''), (''/a/o/b/x'', ''/a/z'')}"
    unfolding reference_graph_def using r by auto
  have fin: "finite (reference_graph ''/w'' cyc_fs ?R)"
    by (rule finite_reference_graph) simp
  have acy: "acyclic (reference_graph ''/w'' cyc_fs ?R)"
    unfolding g
    by (rule acyclic_by_rank [where f = "\<lambda>p. if p = ''/a/b/x'' \<or> p = ''/a/z'' then 1 else 0"])
       auto
  have f: "isfile cyc_fs ''/w'' ''/a/b/x''" "isfile cyc_fs ''/w'' ''/a/z''"
    "isfile cyc_fs ''/w'' ''/a/b/../x''" "isfile cyc_fs ''/w'' ''/a/o/b/x''"
    by code_simp+
  have cs: "check_sources cyc_fs ''/w'' [''/a/b/x'', ''/a/z''] = Inr [''/a/b/x'', ''/a/z'']"
    by code_simp
  have m: "main n cyc_fs ''/w'' ''Demo'' ''/a/o/Kconfig'' [''/a/b/x'', ''/a/z''] = None" for n
    by (simp del: check_sources.simps add: main_def cs cyc_init cyc_import_sources)
  from cyc_init g fin acy f cyc_import_sources m show ?thesis by blast
qed

end
